theory Spec2Isabelle
  imports Complex_Main
begin

section \<open>Reduction factors (BookReader.js, quantizeReduce and nextReduce)\<close>

text \<open>
  A \<^verbatim>\<open>ReductionFactor\<close> is an object with a numeric field \<^verbatim>\<open>reduce\<close> and an optional
  string field \<^verbatim>\<open>autofit\<close>. A number is the real that the double stands for (no NaN, no
  infinity); an absent \<^verbatim>\<open>autofit\<close> is \<open>None\<close>.
\<close>

record ReductionFactor =
  reduce :: real
  autofit :: "string option"

datatype js_error =
    TypeError
  | URIError
  | InvalidMode
  | UnknownMode
  | UnimplementedMode

text \<open>
  \<^verbatim>\<open>quantizeReduce\<close> subtracts, and the difference of two doubles is the double nearest to
  their exact difference. The rounding of the runtime is the parameter \<open>fl\<close>: \<open>fl x\<close> is the
  double that the real \<open>x\<close> is rounded to. \<^verbatim>\<open>Math.abs\<close> and the comparisons are exact.

  The body of the \<^verbatim>\<open>for\<close> loop of \<^verbatim>\<open>quantizeReduce\<close>, run over the factors at
  indices \<open>1, 2, ...\<close>; the loop state is the pair \<^verbatim>\<open>(distance, quantized)\<close>.
\<close>

fun quantize_loop ::
  "(real \<Rightarrow> real) \<Rightarrow> real \<Rightarrow> ReductionFactor list \<Rightarrow> real \<Rightarrow> real \<Rightarrow> real" where
  "quantize_loop fl r [] distance quantized = quantized"
| "quantize_loop fl r (f # fs) distance quantized =
     (let newDistance = \<bar>fl (r - reduce f)\<bar> in
      if newDistance < distance then quantize_loop fl r fs newDistance (reduce f)
      else quantize_loop fl r fs distance quantized)"

text \<open>
  \<^verbatim>\<open>reductionFactors[0].reduce\<close> on an empty array reads a field of \<^verbatim>\<open>undefined\<close> and
  throws a TypeError.
\<close>

definition quantizeReduce ::
  "(real \<Rightarrow> real) \<Rightarrow> real \<Rightarrow> ReductionFactor list \<Rightarrow> js_error + real" where
  "quantizeReduce fl r reductionFactors =
     (case reductionFactors of
        [] \<Rightarrow> Inl TypeError
      | f0 # fs \<Rightarrow> Inr (quantize_loop fl r fs \<bar>fl (r - reduce f0)\<bar> (reduce f0)))"

text \<open>
  Array indexing as JavaScript does it: an index outside the array gives \<^verbatim>\<open>undefined\<close>,
  here \<open>None\<close>.
\<close>

definition js_index :: "'a list \<Rightarrow> int \<Rightarrow> 'a option" where
  "js_index xs i = (if 0 \<le> i \<and> i < int (length xs) then Some (xs ! nat i) else None)"

text \<open>
  The ascending loop of the \<^verbatim>\<open>'in'\<close> branch:
  \<^verbatim>\<open>for (let i = 1; i < reductionFactors.length; i++)\<close>, with \<^verbatim>\<open>newReduceIndex\<close> as state.
\<close>

function in_loop :: "real \<Rightarrow> ReductionFactor list \<Rightarrow> nat \<Rightarrow> nat \<Rightarrow> nat" where
  "in_loop currentReduce rfs i newReduceIndex =
     (if i < length rfs
      then in_loop currentReduce rfs (Suc i)
             (if reduce (rfs ! i) < currentReduce then i else newReduceIndex)
      else newReduceIndex)"
  by pat_completeness auto
termination
  by (relation "measure (\<lambda>(c, rfs, i, k). length rfs - i)") auto

declare in_loop.simps [simp del]

text \<open>
  The descending loop of the \<^verbatim>\<open>'out'\<close> branch:
  \<^verbatim>\<open>for (let i = lastIndex; i >= 0; i--)\<close>. The first argument after the list is
  \<open>i + 1\<close>, so that \<open>0\<close> is the exit of the loop.
\<close>

fun out_loop :: "real \<Rightarrow> ReductionFactor list \<Rightarrow> nat \<Rightarrow> int \<Rightarrow> int" where
  "out_loop currentReduce rfs 0 newReduceIndex = newReduceIndex"
| "out_loop currentReduce rfs (Suc i) newReduceIndex =
     out_loop currentReduce rfs i
       (if reduce (rfs ! i) > currentReduce then int i else newReduceIndex)"

text \<open>
  The loop over \<^verbatim>\<open>candidates\<close> of the \<^verbatim>\<open>'auto'\<close> branch; \<^verbatim>\<open>choice === null\<close> is \<open>None\<close>.
\<close>

fun auto_choice :: "ReductionFactor list \<Rightarrow> ReductionFactor option \<Rightarrow> ReductionFactor option" where
  "auto_choice [] choice = choice"
| "auto_choice (c # cs) choice =
     (case choice of
        None \<Rightarrow> auto_choice cs (Some c)
      | Some ch \<Rightarrow> if reduce ch < reduce c then auto_choice cs (Some c)
                   else auto_choice cs choice)"

text \<open>
  \<^verbatim>\<open>nextReduce\<close>. The result is \<open>None\<close> where the JavaScript returns \<^verbatim>\<open>undefined\<close>
  (an empty array of factors).
\<close>

definition nextReduce :: "real \<Rightarrow> string \<Rightarrow> ReductionFactor list \<Rightarrow> ReductionFactor option" where
  "nextReduce currentReduce direction reductionFactors =
     (if direction = ''in'' then
        js_index reductionFactors (int (in_loop currentReduce reductionFactors 1 0))
      else if direction = ''out'' then
        (let lastIndex = int (length reductionFactors) - 1 in
         js_index reductionFactors
           (out_loop currentReduce reductionFactors (length reductionFactors) lastIndex))
      else if direction = ''auto'' then
        (case find (\<lambda>rf. autofit rf = Some ''auto'') reductionFactors of
           Some autoMatch \<Rightarrow> Some autoMatch
         | None \<Rightarrow>
            (case auto_choice
                    (filter (\<lambda>rf. autofit rf = Some ''height'' \<or> autofit rf = Some ''width'')
                       reductionFactors) None of
               Some choice \<Rightarrow> Some choice
             | None \<Rightarrow> js_index reductionFactors 0))
      else if direction = ''height'' \<or> direction = ''width'' then
        (case find (\<lambda>rf. autofit rf = Some direction) reductionFactors of
           Some match \<Rightarrow> Some match
         | None \<Rightarrow> js_index reductionFactors 0)
      else js_index reductionFactors 0)"

section \<open>The viewer state and the calls that leave the coordinator\<close>

text \<open>
  The values that \<^verbatim>\<open>this.mode\<close> and \<^verbatim>\<open>this.prevReadMode\<close> can hold. \<^verbatim>\<open>switchMode\<close> looks a
  string argument up in an object literal, so a string that names a member inherited from
  \<^verbatim>\<open>Object.prototype\<close> (such as \<^verbatim>\<open>'toString'\<close>) resolves to that member, a truthy value
  that is not a number: \<open>Inherited\<close> carries its key.
\<close>

datatype mode_value = Null | Undefined | NaN | Num int | Inherited string

datatype mode_arg = ArgNum int | ArgNaN | ArgStr string | ArgUndefined

definition constMode1up :: int where "constMode1up = 1"
definition constMode2up :: int where "constMode2up = 2"
definition constModeThumb :: int where "constModeThumb = 3"

text \<open>
  JavaScript truthiness, the loose comparison \<^verbatim>\<open>==\<close> and the strict comparison \<^verbatim>\<open>===\<close> on
  these values; NaN equals nothing, itself included.
\<close>

fun truthy :: "mode_value \<Rightarrow> bool" where
  "truthy Null = False"
| "truthy Undefined = False"
| "truthy NaN = False"
| "truthy (Num n) = (n \<noteq> 0)"
| "truthy (Inherited k) = True"

fun loose_eq :: "mode_value \<Rightarrow> mode_value \<Rightarrow> bool" where
  "loose_eq NaN b = False"
| "loose_eq a NaN = False"
| "loose_eq Null Undefined = True"
| "loose_eq Undefined Null = True"
| "loose_eq a b = (a = b)"

definition strict_eq :: "mode_value \<Rightarrow> mode_value \<Rightarrow> bool" where
  "strict_eq a b = (a = b \<and> a \<noteq> NaN)"

text \<open>
  Modelled from the spec: the table \<^verbatim>\<open>EVENTS\<close> (events.js is not among the sources), with
  the event names of the spec's section 6; \<^verbatim>\<open>BookReader.eventNames[mode + 'PageViewSelected']\<close>
  is defined for the three modes and \<^verbatim>\<open>undefined\<close> for any other key.
\<close>

datatype event =
    EvStop
  | EvFragmentChange
  | EvPageChanged
  | EvUserAction
  | EvPageViewSelected int
  | EvUndefined

fun pageViewSelected :: "mode_value \<Rightarrow> event" where
  "pageViewSelected (Num n) =
     (if n = 1 \<or> n = 2 \<or> n = 3 then EvPageViewSelected n else EvUndefined)"
| "pageViewSelected m = EvUndefined"

text \<open>
  Calls that leave the coordinator are recorded, in order, in the field \<open>trace\<close> of the
  state: events published with \<^verbatim>\<open>trigger\<close>, calls to the per-mode renderers
  (\<open>1\<close> is \<^verbatim>\<open>mode1Up\<close>, \<open>2\<close> is \<^verbatim>\<open>mode2Up\<close>, \<open>3\<close> is \<^verbatim>\<open>modeThumb\<close>), to the navbar and
  to the text selection plugin. What the callee does is outside the model.
\<close>

record JumpArgs =
  pageX :: "real option"
  pageY :: "real option"
  noAnimate :: "bool option"

datatype effect =
    Trigger event
  | Unprepare int
  | Prepare int
  | ModeJumpToIndex int int JumpArgs
  | UpdateNavIndexThrottled int
  | StopPageFlip

text \<open>
  The book model (BookModel.js is not among the sources) is a parameter: the page object
  that \<^verbatim>\<open>getPage(index)\<close> returns, with the index of the page that
  \<^verbatim>\<open>findNext({combineConsecutiveUnviewables: true})\<close> returns (\<open>None\<close> when it returns
  \<^verbatim>\<open>undefined\<close>), and the functions \<^verbatim>\<open>getNumLeafs\<close>, \<^verbatim>\<open>parsePageString\<close>, \<^verbatim>\<open>leafNumToIndex\<close>.
\<close>

record PageModel =
  page_index :: int
  isViewable :: bool
  unviewablesStart :: "int option"
  findNext_index :: "int option"

record BookModel =
  getNumLeafs :: int
  getPage :: "int \<Rightarrow> PageModel"
  parsePageString :: "string \<Rightarrow> int option"
  leafNumToIndex :: "int \<Rightarrow> int option"

record SearchPlugin =
  search_enabled :: bool
  goToFirstResult :: bool
  options_initialSearchTerm :: "string option"
  initialSearchTerm :: "string option"
  searchTerm :: "string option"

record ResumePlugin =
  resume_enabled :: bool
  getResumeValue :: "int option"

text \<open>
  The fields of the \<^verbatim>\<open>BookReader\<close> instance that the modelled methods read or write.
  \<open>None\<close> in \<open>firstIndex\<close> and \<open>displayedIndices\<close> is \<^verbatim>\<open>null\<close>; a plugin that is not
  registered is \<open>None\<close>. Page indices are integers.
\<close>

record BookReader =
  mode :: mode_value
  prevReadMode :: mode_value
  initComplete :: bool
  firstIndex :: "int option"
  displayedIndices :: "int list option"
  reduce_br :: real
  pageScale :: real
  reductionFactors :: "ReductionFactor list"
  suppressFragmentChange :: bool
  titleLeaf :: "int option"
  defaults :: "string option"
  enableUrlPlugin :: bool
  urlMode :: string
  plugins_search :: "SearchPlugin option"
  plugins_resume :: "ResumePlugin option"
  plugins_textSelection :: bool
  book :: BookModel
  trace :: "effect list"

text \<open>
  A method either returns with the new state, or throws: \<open>Inl\<close> carries the error and the
  state at the moment of the throw.
\<close>

type_synonym 'a outcome = "(js_error \<times> BookReader) + 'a"

definition trigger :: "event \<Rightarrow> BookReader \<Rightarrow> BookReader" where
  "trigger name br = br\<lparr>trace := trace br @ [Trigger name]\<rparr>"

definition call :: "effect \<Rightarrow> BookReader \<Rightarrow> BookReader" where
  "call e br = br\<lparr>trace := trace br @ [e]\<rparr>"

text \<open>
  The getter \<^verbatim>\<open>activeMode\<close>: the renderer of the current mode, \<^verbatim>\<open>undefined\<close> (\<open>None\<close>) when
  \<^verbatim>\<open>this.mode\<close> is not 1, 2 or 3.
\<close>

fun activeMode :: "BookReader \<Rightarrow> int option" where
  "activeMode br =
     (case mode br of
        Num n \<Rightarrow> if n = 1 \<or> n = 2 \<or> n = 3 then Some n else None
      | _ \<Rightarrow> None)"

section \<open>Navigation (BookReader.js, currentIndex, _isIndexDisplayed, jumpToIndex, updateFirstIndex)\<close>

text \<open>
  Modelled from the spec: \<^verbatim>\<open>utils.clamp\<close> (utils.js is not among the sources), "clamped to
  \<open>[0, numLeafs-1]\<close>".
\<close>

definition clamp :: "int \<Rightarrow> int \<Rightarrow> int \<Rightarrow> int" where
  "clamp v lo hi = min (max v lo) hi"

text \<open>
  \<^verbatim>\<open>currentIndex\<close>. In \<^verbatim>\<open>Math.max\<close> a \<^verbatim>\<open>null\<close> first index counts as 0.
\<close>

definition currentIndex :: "BookReader \<Rightarrow> (int option) outcome" where
  "currentIndex br =
     (if loose_eq (mode br) (Num constMode1up) \<or> loose_eq (mode br) (Num constModeThumb)
      then Inr (firstIndex br)
      else if loose_eq (mode br) (Num constMode2up)
      then Inr (Some (clamp (case firstIndex br of None \<Rightarrow> 0 | Some i \<Rightarrow> i) 0
                        (getNumLeafs (book br) - 1)))
      else Inl (UnimplementedMode, br))"

text \<open>
  \<^verbatim>\<open>_isIndexDisplayed\<close>; the argument is \<open>None\<close> when the caller passes \<^verbatim>\<open>undefined\<close>, which
  no array of indices includes and which \<^verbatim>\<open>==\<close> equates with a \<^verbatim>\<open>null\<close> current index.
\<close>

definition isIndexDisplayed :: "int option \<Rightarrow> BookReader \<Rightarrow> bool outcome" where
  "isIndexDisplayed index br =
     (case displayedIndices br of
        Some ds \<Rightarrow> Inr (case index of None \<Rightarrow> False | Some i \<Rightarrow> i \<in> set ds)
      | None \<Rightarrow>
          (case currentIndex br of
             Inl e \<Rightarrow> Inl e
           | Inr ci \<Rightarrow> Inr (ci = index)))"

text \<open>
  \<^verbatim>\<open>jumpToIndex\<close> calls itself on the redirected index. Nothing in the method bounds the
  chain of redirections for an arbitrary book, so the result is \<open>None\<close> when it does not
  return.
\<close>

partial_function (option) jumpToIndex ::
  "int \<Rightarrow> JumpArgs \<Rightarrow> BookReader \<Rightarrow> (BookReader outcome) option" where
  "jumpToIndex index args br =
     (let page = getPage (book br) index in
      if \<not> isViewable page \<and> unviewablesStart page \<noteq> Some (page_index page) then
        (case isIndexDisplayed (unviewablesStart page) br of
           Inl e \<Rightarrow> Some (Inl e)
         | Inr alreadyInPreview \<Rightarrow>
             (case (if alreadyInPreview then findNext_index page else unviewablesStart page) of
                Some newIndex \<Rightarrow> jumpToIndex newIndex args br
              | None \<Rightarrow> Some (Inr br)))
      else
        (let br1 = trigger EvStop br in
         case activeMode br1 of
           None \<Rightarrow> Some (Inl (TypeError, br1))
         | Some m \<Rightarrow> Some (Inr (call (ModeJumpToIndex m index args) br1))))"

text \<open>
  \<^verbatim>\<open>updateFirstIndex(index, {suppressFragmentChange = false})\<close>; the second argument is the
  option of the call.
\<close>

definition updateFirstIndex :: "int \<Rightarrow> bool \<Rightarrow> BookReader \<Rightarrow> BookReader" where
  "updateFirstIndex index suppress br =
     (if firstIndex br = Some index then br
      else
        (let br1 = br\<lparr>firstIndex := Some index\<rparr>;
             br2 = (if \<not> (suppressFragmentChange br1 \<or> suppress)
                    then trigger EvFragmentChange br1 else br1);
             br3 = (if (case plugins_search br2 of
                          None \<Rightarrow> False
                        | Some sp \<Rightarrow> (case options_initialSearchTerm sp of
                                       None \<Rightarrow> False | Some t \<Rightarrow> t \<noteq> []))
                       \<and> \<not> suppress
                    then br2\<lparr>suppressFragmentChange := False\<rparr> else br2);
             br4 = trigger EvPageChanged br3;
             br5 = trigger EvUserAction br4
         in call (UpdateNavIndexThrottled index) br5))"

section \<open>Mode switching (BookReader.js, getPrevReadMode, canSwitchToMode, switchMode)\<close>

definition getPrevReadMode :: "BookReader \<Rightarrow> mode_value \<Rightarrow> mode_value" where
  "getPrevReadMode br m =
     (if strict_eq m (Num constMode1up) \<or> strict_eq m (Num constMode2up) then m
      else if strict_eq (prevReadMode br) Null then Num constMode1up
      else Undefined)"

definition canSwitchToMode :: "BookReader \<Rightarrow> mode_value \<Rightarrow> bool" where
  "canSwitchToMode br m =
     (if loose_eq m (Num constMode2up) \<or> loose_eq m (Num constModeThumb)
      then (if getNumLeafs (book br) < 2 then False else True)
      else True)"

text \<open>
  The members that an object literal inherits from \<^verbatim>\<open>Object.prototype\<close>, and the lookup
  of a string in the literal \<^verbatim>\<open>{'1up': 1, '2up': 2, 'thumb': 3}\<close>.
\<close>

definition object_prototype_keys :: "string list" where
  "object_prototype_keys =
     [''constructor'', ''hasOwnProperty'', ''isPrototypeOf'', ''propertyIsEnumerable'',
      ''toLocaleString'', ''toString'', ''valueOf'', ''__proto__'',
      ''__defineGetter__'', ''__defineSetter__'', ''__lookupGetter__'', ''__lookupSetter__'']"

definition mode_of_string :: "string \<Rightarrow> mode_value" where
  "mode_of_string s =
     (if s = ''1up'' then Num constMode1up
      else if s = ''2up'' then Num constMode2up
      else if s = ''thumb'' then Num constModeThumb
      else if s \<in> set object_prototype_keys then Inherited s
      else Undefined)"

fun resolve_mode :: "mode_arg \<Rightarrow> mode_value" where
  "resolve_mode (ArgStr s) = mode_of_string s"
| "resolve_mode (ArgNum n) = Num n"
| "resolve_mode ArgNaN = NaN"
| "resolve_mode ArgUndefined = Undefined"

text \<open>
  Three statements of \<^verbatim>\<open>switchMode\<close>, each on the target mode \<open>m\<close>. First
  \<^verbatim>\<open>if (this.mode != mode) { this.activeMode.unprepare?.(); }\<close>, which throws a TypeError
  when the current mode has no renderer.
\<close>

definition switchMode_unprepare :: "mode_value \<Rightarrow> BookReader \<Rightarrow> BookReader outcome" where
  "switchMode_unprepare m br =
     (if \<not> loose_eq (mode br) m then
        (case activeMode br of
           None \<Rightarrow> Inl (TypeError, br)
         | Some a \<Rightarrow> Inr (call (Unprepare a) br))
      else Inr br)"

text \<open>
  Then the chain that prepares the renderer of the new mode; for the thumbnail mode
  \<^verbatim>\<open>reduce\<close> is quantized first.
\<close>

definition switchMode_prepare ::
  "(real \<Rightarrow> real) \<Rightarrow> mode_value \<Rightarrow> BookReader \<Rightarrow> BookReader outcome" where
  "switchMode_prepare fl m br =
     (if m = Num constMode1up then Inr (call (Prepare 1) br)
      else if m = Num constModeThumb then
        (case quantizeReduce fl (reduce_br br) (reductionFactors br) of
           Inl e \<Rightarrow> Inl (e, br)
         | Inr q \<Rightarrow> Inr (call (Prepare 3) (br\<lparr>reduce_br := q\<rparr>)))
      else Inr (call (Prepare 2) br))"

text \<open>
  Last the events \<^verbatim>\<open>fragmentChange\<close> (unless suppressed) and \<^verbatim>\<open><mode>PageViewSelected\<close>,
  and the call to the text selection plugin.
\<close>

definition switchMode_announce :: "mode_value \<Rightarrow> bool \<Rightarrow> BookReader \<Rightarrow> BookReader" where
  "switchMode_announce m suppress br =
     (let br1 = (if \<not> (suppressFragmentChange br \<or> suppress)
                 then trigger EvFragmentChange br else br);
          br2 = trigger (pageViewSelected m) br1
      in if plugins_textSelection br2 then call StopPageFlip br2 else br2)"

text \<open>
  \<^verbatim>\<open>switchMode(mode, {suppressFragmentChange = false, init = false, pageFound = false})\<close>.
  The body reads only \<^verbatim>\<open>suppressFragmentChange\<close> of the options, the argument \<open>suppress\<close>
  here; \<open>fl\<close> is the rounding of the runtime, for \<^verbatim>\<open>quantizeReduce\<close>.
\<close>

definition switchMode ::
  "(real \<Rightarrow> real) \<Rightarrow> mode_arg \<Rightarrow> bool \<Rightarrow> BookReader \<Rightarrow> BookReader outcome" where
  "switchMode fl arg suppress br =
     (let m = resolve_mode arg in
      if \<not> truthy m then Inl (InvalidMode, br)
      else if initComplete br \<and> strict_eq m (mode br) then Inr br
      else if initComplete br \<and> \<not> canSwitchToMode br m then Inr br
      else
        (let br1 = trigger EvStop br;
             br2 = br1\<lparr>prevReadMode := getPrevReadMode br1 (mode br1)\<rparr>
         in
         case switchMode_unprepare m br2 of
           Inl e \<Rightarrow> Inl e
         | Inr br3 \<Rightarrow>
             (let br4 = br3\<lparr>mode := m\<rparr>;
                  br5 = (if pageScale br4 \<noteq> reduce_br br4
                         then br4\<lparr>reduce_br := pageScale br4\<rparr> else br4)
              in
              case switchMode_prepare fl m br5 of
                Inl e \<Rightarrow> Inl e
              | Inr br6 \<Rightarrow> Inr (switchMode_announce m suppress br6))))"

text \<open>The state a call ends in, whether it returns or throws.\<close>

fun outcome_state :: "BookReader outcome \<Rightarrow> BookReader" where
  "outcome_state (Inl (e, br)) = br"
| "outcome_state (Inr br) = br"

section \<open>The fragment codec (BookReader.js, paramsFromFragment, fragmentFromParams, extendParams)\<close>

text \<open>
  A params object. Each field is \<open>None\<close> when the key is absent; in \<open>p_index\<close>, \<open>None\<close>
  also stands for a \<^verbatim>\<open>null\<close> index. Indices and modes are integers.
\<close>

record Params =
  p_index :: "int option"
  p_page :: "string option"
  p_mode :: "int option"
  p_search :: "string option"
  p_theme :: "string option"
  p_init :: "bool option"
  p_pageFound :: "bool option"
  p_fragmentChange :: "bool option"

definition empty_params :: Params where
  "empty_params = \<lparr>p_index = None, p_page = None, p_mode = None, p_search = None,
     p_theme = None, p_init = None, p_pageFound = None, p_fragmentChange = None\<rparr>"

text \<open>
  What the code takes from the JavaScript runtime and from the URL plugin: the built-in
  \<^verbatim>\<open>decodeURIComponent\<close> and \<^verbatim>\<open>encodeURIComponent\<close>, the helpers
  \<^verbatim>\<open>utils.decodeURIComponentPlus\<close> and \<^verbatim>\<open>utils.encodeURIComponentPlus\<close> (each \<open>None\<close> where
  it throws a URIError), the strings that \<^verbatim>\<open>urlReadFragment()\<close> and
  \<^verbatim>\<open>urlReadHashFragment()\<close> return, and the value of
  \<^verbatim>\<open>new URLSearchParams(this.readQueryString()).get('q')\<close>. For an integer of magnitude
  \<open>2^53\<close> or more, where a double no longer holds every integer, it is also the runtime that
  says how the number is printed and what \<^verbatim>\<open>parseInt\<close> gives for its digits.
\<close>

record Env =
  decodeURIComponent :: "string \<Rightarrow> string option"
  encodeURIComponent :: "string \<Rightarrow> string option"
  decodeURIComponentPlus :: "string \<Rightarrow> string option"
  encodeURIComponentPlus :: "string \<Rightarrow> string option"
  urlReadFragment :: string
  urlReadHashFragment :: string
  query_q :: "string option"
  numberToString_large :: "int \<Rightarrow> string"
  parseInt_large :: "string \<Rightarrow> int"

text \<open>
  Decimal digits: the test \<^verbatim>\<open>/^\d+$/\<close>, the value of a string of digits, and the decimal
  numeral of a natural number.
\<close>

definition is_digit :: "char \<Rightarrow> bool" where
  "is_digit c = (c \<in> set ''0123456789'')"

definition digit_value :: "char \<Rightarrow> nat" where
  "digit_value c = (of_char c :: nat) - 48"

definition decimal_value :: "string \<Rightarrow> nat" where
  "decimal_value s = foldl (\<lambda>a c. 10 * a + digit_value c) 0 s"

definition all_digits :: "string \<Rightarrow> bool" where
  "all_digits s = (s \<noteq> [] \<and> list_all is_digit s)"

fun string_of_nat :: "nat \<Rightarrow> string" where
  "string_of_nat n =
     (if n < 10 then [''0123456789'' ! n]
      else string_of_nat (n div 10) @ [''0123456789'' ! (n mod 10)])"

declare string_of_nat.simps [simp del]

definition string_of_int :: "int \<Rightarrow> string" where
  "string_of_int i = (if i < 0 then CHR ''-'' # string_of_nat (nat (- i)) else string_of_nat (nat i))"

text \<open>
  \<^verbatim>\<open>parseInt\<close> on a string of digits, and the conversion of an integer to a string in
  \<^verbatim>\<open>'n' + params.index\<close>. Below \<open>2^53\<close> in magnitude both are exact: the value of the digits,
  and the decimal numeral. From there on the runtime decides (rounded values, an exponent
  from \<open>10^21\<close>). A string of digits so long that \<^verbatim>\<open>parseInt\<close> gives \<^verbatim>\<open>Infinity\<close> has no index
  in this model.
\<close>

definition parseInt :: "Env \<Rightarrow> string \<Rightarrow> int" where
  "parseInt env s =
     (if decimal_value s < 2 ^ 53 then int (decimal_value s) else parseInt_large env s)"

definition numberToString :: "Env \<Rightarrow> int \<Rightarrow> string" where
  "numberToString env i =
     (if - (2 ^ 53) < i \<and> i < 2 ^ 53 then string_of_int i else numberToString_large env i)"

text \<open>\<^verbatim>\<open>fragment.split('/')\<close> and \<^verbatim>\<open>fragments.join('/')\<close>.\<close>

fun split_slash :: "string \<Rightarrow> string list" where
  "split_slash [] = [[]]"
| "split_slash (c # cs) =
     (if c = CHR ''/'' then [] # split_slash cs
      else (case split_slash cs of
              [] \<Rightarrow> [[c]]
            | t # ts \<Rightarrow> (c # t) # ts))"

fun join_slash :: "string list \<Rightarrow> string" where
  "join_slash [] = []"
| "join_slash [t] = t"
| "join_slash (t # ts) = t @ CHR ''/'' # join_slash ts"

text \<open>
  The loop that fills \<^verbatim>\<open>urlHash\<close>: \<^verbatim>\<open>urlHash[urlArray[i]] = urlArray[i + 1]\<close> for
  \<open>i = 0, 2, 4, ...\<close>. A key at the last position is assigned \<^verbatim>\<open>undefined\<close>, which reads
  back like an absent key.
\<close>

fun urlHash_loop :: "string list \<Rightarrow> (string \<Rightarrow> string option) \<Rightarrow> (string \<Rightarrow> string option)" where
  "urlHash_loop [] h = h"
| "urlHash_loop [k] h = h(k := None)"
| "urlHash_loop (k # v # rest) h = urlHash_loop rest (h(k := Some v))"

text \<open>
  The first lines of \<^verbatim>\<open>paramsFromFragment\<close>: an initial \<^verbatim>\<open>#\<close> is dropped. Then, for a
  fragment that is not a bare number, the object \<^verbatim>\<open>urlHash\<close> built from it.
\<close>

definition strip_hash :: "string \<Rightarrow> string" where
  "strip_hash fragment = (if take 1 fragment = ''#'' then drop 1 fragment else fragment)"

definition urlHash_of :: "string \<Rightarrow> (string \<Rightarrow> string option)" where
  "urlHash_of fragment = urlHash_loop (split_slash fragment) (\<lambda>k. None)"

text \<open>
  The rest of \<^verbatim>\<open>paramsFromFragment\<close>, from the comment "Mode" on: the params object read
  off \<^verbatim>\<open>urlHash\<close>.
\<close>

definition paramsFromHash :: "Env \<Rightarrow> (string \<Rightarrow> string option) \<Rightarrow> js_error + Params" where
  "paramsFromHash env urlHash =
     (let params1 =
        (if urlHash ''mode'' = Some ''1up'' then empty_params\<lparr>p_mode := Some constMode1up\<rparr>
         else if urlHash ''mode'' = Some ''2up'' then empty_params\<lparr>p_mode := Some constMode2up\<rparr>
         else if urlHash ''mode'' = Some ''thumb'' then empty_params\<lparr>p_mode := Some constModeThumb\<rparr>
         else empty_params)
      in
      case (case urlHash ''page'' of
              None \<Rightarrow> Inr params1
            | Some v \<Rightarrow>
                (case decodeURIComponent env v of
                   None \<Rightarrow> Inl URIError
                 | Some d \<Rightarrow> Inr (params1\<lparr>p_page := Some d\<rparr>))) of
        Inl e \<Rightarrow> Inl e
      | Inr params2 \<Rightarrow>
          (case (case urlHash ''search'' of
                   None \<Rightarrow> Inr params2
                 | Some v \<Rightarrow>
                     (case decodeURIComponentPlus env v of
                        None \<Rightarrow> Inl URIError
                      | Some d \<Rightarrow> Inr (params2\<lparr>p_search := Some d\<rparr>))) of
             Inl e \<Rightarrow> Inl e
           | Inr params3 \<Rightarrow>
               (case urlHash ''theme'' of
                  None \<Rightarrow> Inr params3
                | Some v \<Rightarrow> Inr (params3\<lparr>p_theme := Some v\<rparr>))))"

definition paramsFromFragment :: "Env \<Rightarrow> string \<Rightarrow> js_error + Params" where
  "paramsFromFragment env fragment0 =
     (let fragment = strip_hash fragment0 in
      if all_digits fragment
      then Inr (empty_params\<lparr>p_index := Some (parseInt env fragment)\<rparr>)
      else paramsFromHash env (urlHash_of fragment))"

text \<open>
  \<^verbatim>\<open>fragmentFromParams(params, urlMode = 'hash')\<close>; the caller's \<^verbatim>\<open>urlMode\<close> is \<open>None\<close> when
  the argument is omitted.
\<close>

definition fragmentFromParams :: "Env \<Rightarrow> Params \<Rightarrow> string option \<Rightarrow> js_error + string" where
  "fragmentFromParams env params urlMode0 =
     (let urlMode = (case urlMode0 of None \<Rightarrow> ''hash'' | Some u \<Rightarrow> u) in
      case (case p_page params of
              Some pg \<Rightarrow>
                (case encodeURIComponent env pg of
                   None \<Rightarrow> Inl URIError
                 | Some e \<Rightarrow> Inr [''page'', e])
            | None \<Rightarrow>
                (case p_index params of
                   Some i \<Rightarrow> Inr [''page'', CHR ''n'' # numberToString env i]
                 | None \<Rightarrow> Inr [])) of
        Inl e \<Rightarrow> Inl e
      | Inr fragments1 \<Rightarrow>
          (case (case p_mode params of
                   None \<Rightarrow> Inr fragments1
                 | Some m \<Rightarrow>
                     if m = constMode1up then Inr (fragments1 @ [''mode'', ''1up''])
                     else if m = constMode2up then Inr (fragments1 @ [''mode'', ''2up''])
                     else if m = constModeThumb then Inr (fragments1 @ [''mode'', ''thumb''])
                     else Inl UnknownMode) of
             Inl e \<Rightarrow> Inl e
           | Inr fragments2 \<Rightarrow>
               (case p_search params of
                  None \<Rightarrow> Inr (join_slash fragments2)
                | Some t \<Rightarrow>
                    if t \<noteq> [] \<and> urlMode = ''hash'' then
                      (case encodeURIComponentPlus env t of
                         None \<Rightarrow> Inl URIError
                       | Some e \<Rightarrow> Inr (join_slash (fragments2 @ [''search'', e])))
                    else Inr (join_slash fragments2))))"

text \<open>
  \<^verbatim>\<open>$.extend(params, newParams)\<close>: every key of the second object that has a value
  overwrites the key of the first.
\<close>

definition orElse :: "'a option \<Rightarrow> 'a option \<Rightarrow> 'a option" where
  "orElse new old = (case new of None \<Rightarrow> old | Some v \<Rightarrow> Some v)"

definition extend :: "Params \<Rightarrow> Params \<Rightarrow> Params" where
  "extend params newParams =
     \<lparr>p_index = orElse (p_index newParams) (p_index params),
      p_page = orElse (p_page newParams) (p_page params),
      p_mode = orElse (p_mode newParams) (p_mode params),
      p_search = orElse (p_search newParams) (p_search params),
      p_theme = orElse (p_theme newParams) (p_theme params),
      p_init = orElse (p_init newParams) (p_init params),
      p_pageFound = orElse (p_pageFound newParams) (p_pageFound params),
      p_fragmentChange = orElse (p_fragmentChange newParams) (p_fragmentChange params)\<rparr>"

text \<open>
  \<^verbatim>\<open>extendParams(params, newParams)\<close>, returning the updated \<^verbatim>\<open>params\<close>.
  \<^verbatim>\<open>parsePageString\<close> gives \<open>None\<close> where \<^verbatim>\<open>isNaN(pageIndex)\<close> holds.
\<close>

definition extendParams :: "BookModel \<Rightarrow> Params \<Rightarrow> Params \<Rightarrow> Params" where
  "extendParams bk params newParams =
     (let modifiedNewParams =
        (case p_page newParams of
           None \<Rightarrow> newParams
         | Some pg \<Rightarrow>
             (case parsePageString bk pg of
                Some pageIndex \<Rightarrow> newParams\<lparr>p_index := Some pageIndex, p_page := None\<rparr>
              | None \<Rightarrow> newParams\<lparr>p_page := None\<rparr>))
      in extend params modifiedNewParams)"

section \<open>Startup parameters (BookReader.js, initParams)\<close>

text \<open>\<^verbatim>\<open>Object.keys(urlParams).length\<close> is not zero.\<close>

definition has_keys :: "Params \<Rightarrow> bool" where
  "has_keys p = (p_index p \<noteq> None \<or> p_page p \<noteq> None \<or> p_mode p \<noteq> None
     \<or> p_search p \<noteq> None \<or> p_theme p \<noteq> None \<or> p_init p \<noteq> None
     \<or> p_pageFound p \<noteq> None \<or> p_fragmentChange p \<noteq> None)"

text \<open>Truthiness of an optional string and of an optional flag.\<close>

definition truthy_string :: "string option \<Rightarrow> bool" where
  "truthy_string s = (case s of None \<Rightarrow> False | Some t \<Rightarrow> t \<noteq> [])"

definition truthy_flag :: "bool option \<Rightarrow> bool" where
  "truthy_flag b = (case b of None \<Rightarrow> False | Some v \<Rightarrow> v)"

text \<open>The block "Check for Search plugin" of \<^verbatim>\<open>initParams\<close>, on the plugin object.\<close>

definition initParams_search :: "Env \<Rightarrow> Params \<Rightarrow> SearchPlugin \<Rightarrow> js_error + SearchPlugin" where
  "initParams_search env params sp0 =
     (let sp = sp0\<lparr>goToFirstResult := \<not> truthy_flag (p_pageFound params)\<rparr> in
      if \<not> truthy_string (initialSearchTerm sp) then
        (if truthy_string (p_search params) then
           Inr (sp\<lparr>options_initialSearchTerm := p_search params, searchTerm := p_search params\<rparr>)
         else
           (case query_q env of
              None \<Rightarrow> Inr sp
            | Some q \<Rightarrow>
                if q \<noteq> [] then
                  (case decodeURIComponentPlus env q of
                     None \<Rightarrow> Inl URIError
                   | Some d \<Rightarrow> Inr (sp\<lparr>options_initialSearchTerm := Some d\<rparr>))
                else Inr sp))
      else Inr sp)"

text \<open>
  The block "Check for URL plugin" of \<^verbatim>\<open>initParams\<close>: first the value of the variable
  \<^verbatim>\<open>urlParams\<close> when the block tests it, then the block on the params object.
\<close>

definition urlParams :: "Env \<Rightarrow> BookReader \<Rightarrow> js_error + Params" where
  "urlParams env br =
     (case paramsFromFragment env (urlReadFragment env) of
        Inl e \<Rightarrow> Inl e
      | Inr urlParams0 \<Rightarrow>
          (let hasHashURL = (\<not> has_keys urlParams0 \<and> urlReadHashFragment env \<noteq> []) in
           if hasHashURL \<and> urlMode br = ''history''
           then paramsFromFragment env (urlReadHashFragment env)
           else Inr urlParams0))"

definition initParams_url :: "Env \<Rightarrow> BookReader \<Rightarrow> Params \<Rightarrow> js_error + Params" where
  "initParams_url env br params =
     (case urlParams env br of
        Inl e \<Rightarrow> Inl e
      | Inr u \<Rightarrow>
          if has_keys u then
            (let params1 = (if p_page u \<noteq> None
                            then params\<lparr>p_pageFound := Some True\<rparr> else params);
                 params2 = extendParams (book br) params1 u
             in Inr (params2\<lparr>p_fragmentChange := Some True\<rparr>))
          else Inr params)"

text \<open>The first block of \<^verbatim>\<open>initParams\<close>: the flags and the default index.\<close>

definition initParams_base :: "BookReader \<Rightarrow> Params" where
  "initParams_base br =
     (let params0 = empty_params\<lparr>p_init := Some True, p_pageFound := Some False,
                                p_fragmentChange := Some False\<rparr>
      in case titleLeaf br of
           Some leaf \<Rightarrow>
             if getNumLeafs (book br) > 2
             then params0\<lparr>p_index := leafNumToIndex (book br) leaf\<rparr>
             else params0\<lparr>p_index := Some 0\<rparr>
         | None \<Rightarrow> params0\<lparr>p_index := Some 0\<rparr>)"

text \<open>The block \<^verbatim>\<open>if (this.defaults) { ... }\<close>.\<close>

definition initParams_defaults :: "Env \<Rightarrow> BookReader \<Rightarrow> Params \<Rightarrow> js_error + Params" where
  "initParams_defaults env br params =
     (case defaults br of
        None \<Rightarrow> Inr params
      | Some d \<Rightarrow>
          if d \<noteq> [] then
            (case paramsFromFragment env d of
               Inl e \<Rightarrow> Inl e
             | Inr defaultParams \<Rightarrow>
                 Inr (extendParams (book br)
                        (if p_page defaultParams \<noteq> None
                         then params\<lparr>p_pageFound := Some True\<rparr> else params)
                        defaultParams))
          else Inr params)"

text \<open>The block "Check for Resume plugin".\<close>

definition initParams_resume :: "BookReader \<Rightarrow> Params \<Rightarrow> Params" where
  "initParams_resume br params =
     (case plugins_resume br of
        None \<Rightarrow> params
      | Some rp \<Rightarrow>
          if resume_enabled rp then
            (case getResumeValue rp of
               None \<Rightarrow> params
             | Some val \<Rightarrow>
                 (if p_index params \<noteq> Some val
                  then params\<lparr>p_fragmentChange := Some True\<rparr>
                  else params)\<lparr>p_index := Some val\<rparr>)
          else params)"

text \<open>
  The block "Check for Search plugin" on the viewer: when the decoding of the query
  string throws, \<^verbatim>\<open>goToFirstResult\<close> has been written already.
\<close>

definition initParams_searchPlugin :: "Env \<Rightarrow> Params \<Rightarrow> BookReader \<Rightarrow> BookReader outcome" where
  "initParams_searchPlugin env params br =
     (case plugins_search br of
        None \<Rightarrow> Inr br
      | Some sp \<Rightarrow>
          if search_enabled sp then
            (case initParams_search env params sp of
               Inl e \<Rightarrow>
                 Inl (e, br\<lparr>plugins_search :=
                              Some (sp\<lparr>goToFirstResult := \<not> truthy_flag (p_pageFound params)\<rparr>)\<rparr>)
             | Inr sp' \<Rightarrow> Inr (br\<lparr>plugins_search := Some sp'\<rparr>))
          else Inr br)"

text \<open>
  \<^verbatim>\<open>initParams\<close>: the blocks in the order of the source, then the assignment
  \<^verbatim>\<open>this.suppressFragmentChange = !params.fragmentChange\<close>. The result is the params
  object and the viewer.
\<close>

definition initParams :: "Env \<Rightarrow> BookReader \<Rightarrow> (Params \<times> BookReader) outcome" where
  "initParams env br =
     (case initParams_defaults env br (initParams_base br) of
        Inl e \<Rightarrow> Inl (e, br)
      | Inr params2 \<Rightarrow>
          (let params3 = initParams_resume br params2 in
           case (if enableUrlPlugin br then initParams_url env br params3 else Inr params3) of
             Inl e \<Rightarrow> Inl (e, br)
           | Inr params4 \<Rightarrow>
               (case initParams_searchPlugin env params4 br of
                  Inl e \<Rightarrow> Inl e
                | Inr br1 \<Rightarrow>
                    Inr (params4,
                         br1\<lparr>suppressFragmentChange :=
                                \<not> truthy_flag (p_fragmentChange params4)\<rparr>))))"

text \<open>
  The two conditions under which a startup shows its state in the URL. The resume value
  differs: the resume plugin is enabled and holds an index other than the default index,
  which is the index after the defaults string has been merged. The URL sets parameters:
  the URL plugin is enabled and \<^verbatim>\<open>urlParams\<close> has a key.
\<close>

definition resume_differs :: "Env \<Rightarrow> BookReader \<Rightarrow> bool" where
  "resume_differs env br =
     (case plugins_resume br of
        None \<Rightarrow> False
      | Some rp \<Rightarrow>
          resume_enabled rp \<and>
          (case getResumeValue rp of
             None \<Rightarrow> False
           | Some val \<Rightarrow>
               (case initParams_defaults env br (initParams_base br) of
                  Inl e \<Rightarrow> False
                | Inr d \<Rightarrow> p_index d \<noteq> Some val)))"

definition url_sets_params :: "Env \<Rightarrow> BookReader \<Rightarrow> bool" where
  "url_sets_params env br =
     (enableUrlPlugin br \<and> (case urlParams env br of Inl e \<Rightarrow> False | Inr u \<Rightarrow> has_keys u))"

section \<open>A concrete book, runtime and viewer for the closed examples\<close>

text \<open>
  A book of \<open>n\<close> leaves whose pages 10 to 13 form one unviewable run; the next viewable
  index after the run is 14 when the book has that many leaves. Its page strings are
  \<^verbatim>\<open>n\<close> followed by digits, read as the index the digits stand for.
\<close>

definition example_parsePageString :: "string \<Rightarrow> int option" where
  "example_parsePageString s =
     (case s of
        [] \<Rightarrow> None
      | c # ds \<Rightarrow> if c = CHR ''n'' \<and> all_digits ds
                  then Some (int (decimal_value ds)) else None)"

definition example_book :: "int \<Rightarrow> BookModel" where
  "example_book n =
     \<lparr>getNumLeafs = n,
      getPage = (\<lambda>i. \<lparr>page_index = i,
                       isViewable = (\<not> (10 \<le> i \<and> i \<le> 13)),
                       unviewablesStart = (if 10 \<le> i \<and> i \<le> 13 then Some 10 else None),
                       findNext_index =
                         (if 10 \<le> i \<and> i \<le> 13 then (if 14 < n then Some 14 else None)
                          else if i + 1 < n then Some (i + 1) else None)\<rparr>),
      parsePageString = example_parsePageString,
      leafNumToIndex = (\<lambda>leaf. Some leaf)\<rparr>"

text \<open>
  A runtime for the examples. The two decoders return a string without \<^verbatim>\<open>%\<close> unchanged
  and throw on the malformed escape \<^verbatim>\<open>%\<close>, as the built-in does; the examples give them no
  other string with an escape, call neither encoder, and convert no number of magnitude
  \<open>2^53\<close> or more.
\<close>

definition example_env :: "string \<Rightarrow> Env" where
  "example_env fragment =
     \<lparr>decodeURIComponent = (\<lambda>s. if CHR ''%'' \<in> set s then None else Some s),
      encodeURIComponent = (\<lambda>s. Some s),
      decodeURIComponentPlus = (\<lambda>s. if CHR ''%'' \<in> set s then None else Some s),
      encodeURIComponentPlus = (\<lambda>s. Some s),
      urlReadFragment = fragment,
      urlReadHashFragment = [],
      query_q = None,
      numberToString_large = string_of_int,
      parseInt_large = (\<lambda>s. int (decimal_value s))\<rparr>"

text \<open>A viewer after \<^verbatim>\<open>init()\<close>, in one-page mode on page 0 of the book of \<open>n\<close> leaves.\<close>

definition example_br :: "int \<Rightarrow> BookReader" where
  "example_br n =
     \<lparr>mode = Num 1, prevReadMode = Null, initComplete = True,
      firstIndex = Some 0, displayedIndices = Some [0],
      reduce_br = 1, pageScale = 1,
      reductionFactors = [\<lparr>reduce = 1, autofit = None\<rparr>, \<lparr>reduce = 2, autofit = None\<rparr>,
                          \<lparr>reduce = 4, autofit = None\<rparr>],
      suppressFragmentChange = False, titleLeaf = None, defaults = None,
      enableUrlPlugin = False, urlMode = ''hash'',
      plugins_search = None, plugins_resume = None, plugins_textSelection = False,
      book = example_book n, trace = []\<rparr>"

text \<open>
  A rounding for the examples: to the nearest multiple of \<open>2^-53\<close>. Rounding to the nearest
  double does the same to a real between \<open>1/2\<close> and \<open>1\<close> that is not half way between two
  doubles, and to an integer of magnitude below \<open>2^53\<close>, which it leaves unchanged; the
  examples round no other number.
\<close>

definition example_fl :: "real \<Rightarrow> real" where
  "example_fl x = of_int (round (x * 2 ^ 53)) / 2 ^ 53"

text \<open>A call \<^verbatim>\<open>jumpToIndex(index)\<close> with the three optional arguments omitted.\<close>

definition example_args :: JumpArgs where
  "example_args = \<lparr>pageX = None, pageY = None, noAnimate = None\<rparr>"

section \<open>Properties of the reduction factor engine\<close>

lemma quantize_loop_split:
  "\<exists>pre x post. f0 # fs = pre @ x # post
     \<and> quantize_loop fl r fs \<bar>fl (r - reduce f0)\<bar> (reduce f0) = reduce x
     \<and> (\<forall>y\<in>set pre. \<bar>fl (r - reduce x)\<bar> < \<bar>fl (r - reduce y)\<bar>)
     \<and> (\<forall>y\<in>set post. \<bar>fl (r - reduce x)\<bar> \<le> \<bar>fl (r - reduce y)\<bar>)"
proof (induction fs arbitrary: f0)
  case Nil
  show ?case by (rule exI[of _ "[]"], rule exI[of _ f0], rule exI[of _ "[]"]) simp
next
  case (Cons f fs)
  show ?case
  proof (cases "\<bar>fl (r - reduce f)\<bar> < \<bar>fl (r - reduce f0)\<bar>")
    case True
    from Cons.IH[of f] obtain pre x post where
      s: "f # fs = pre @ x # post"
      and q: "quantize_loop fl r fs \<bar>fl (r - reduce f)\<bar> (reduce f) = reduce x"
      and p1: "\<forall>y\<in>set pre. \<bar>fl (r - reduce x)\<bar> < \<bar>fl (r - reduce y)\<bar>"
      and p2: "\<forall>y\<in>set post. \<bar>fl (r - reduce x)\<bar> \<le> \<bar>fl (r - reduce y)\<bar>"
      by blast
    have "f \<in> set (pre @ x # post)" using s by (metis list.set_intros(1))
    then have "\<bar>fl (r - reduce x)\<bar> \<le> \<bar>fl (r - reduce f)\<bar>" using p1 p2 by fastforce
    then have lt: "\<bar>fl (r - reduce x)\<bar> < \<bar>fl (r - reduce f0)\<bar>" using True by linarith
    have "f0 # f # fs = (f0 # pre) @ x # post" using s by simp
    moreover have "quantize_loop fl r (f # fs) \<bar>fl (r - reduce f0)\<bar> (reduce f0) = reduce x"
      using True q by simp
    moreover have "\<forall>y\<in>set (f0 # pre). \<bar>fl (r - reduce x)\<bar> < \<bar>fl (r - reduce y)\<bar>"
      using p1 lt by simp
    ultimately show ?thesis using p2 by blast
  next
    case False
    from Cons.IH[of f0] obtain pre x post where
      s: "f0 # fs = pre @ x # post"
      and q: "quantize_loop fl r fs \<bar>fl (r - reduce f0)\<bar> (reduce f0) = reduce x"
      and p1: "\<forall>y\<in>set pre. \<bar>fl (r - reduce x)\<bar> < \<bar>fl (r - reduce y)\<bar>"
      and p2: "\<forall>y\<in>set post. \<bar>fl (r - reduce x)\<bar> \<le> \<bar>fl (r - reduce y)\<bar>"
      by blast
    have q': "quantize_loop fl r (f # fs) \<bar>fl (r - reduce f0)\<bar> (reduce f0) = reduce x"
      using False q by simp
    show ?thesis
    proof (cases pre)
      case Nil
      then have "x = f0" "post = fs" using s by simp_all
      then have "f0 # f # fs = [] @ x # (f # post)" by simp
      moreover have "\<forall>y\<in>set (f # post). \<bar>fl (r - reduce x)\<bar> \<le> \<bar>fl (r - reduce y)\<bar>"
        using p2 False \<open>x = f0\<close> by simp
      ultimately show ?thesis using q' by (metis empty_iff list.set(1))
    next
      case (Cons p pre')
      then have "p = f0" "fs = pre' @ x # post" using s by simp_all
      then have e: "f0 # f # fs = (f0 # f # pre') @ x # post" by simp
      have "\<bar>fl (r - reduce x)\<bar> < \<bar>fl (r - reduce f0)\<bar>" using p1 Cons \<open>p = f0\<close> by simp
      then have "\<bar>fl (r - reduce x)\<bar> < \<bar>fl (r - reduce f)\<bar>" using False by linarith
      then have "\<forall>y\<in>set (f0 # f # pre'). \<bar>fl (r - reduce x)\<bar> < \<bar>fl (r - reduce y)\<bar>"
        using p1 Cons \<open>p = f0\<close> by simp
      then show ?thesis using e q' p2 by blast
    qed
  qed
qed

lemma quantizeReduce_split:
  assumes "factors \<noteq> []"
  shows "\<exists>pre x post. factors = pre @ x # post
     \<and> quantizeReduce fl r factors = Inr (reduce x)
     \<and> (\<forall>y\<in>set pre. \<bar>fl (r - reduce x)\<bar> < \<bar>fl (r - reduce y)\<bar>)
     \<and> (\<forall>y\<in>set post. \<bar>fl (r - reduce x)\<bar> \<le> \<bar>fl (r - reduce y)\<bar>)"
proof -
  from assms obtain f0 fs where f: "factors = f0 # fs" by (cases factors) auto
  from quantize_loop_split[of f0 fs fl r] show ?thesis
    unfolding f quantizeReduce_def by simp
qed

lemma example_fl_int: "example_fl (of_int k) = of_int k"
proof -
  have "(of_int k :: real) * 2 ^ 53 = of_int (k * 2 ^ 53)" by simp
  then have "round ((of_int k :: real) * 2 ^ 53) = k * 2 ^ 53"
    by (simp only: round_of_int)
  then show ?thesis by (simp add: example_fl_def)
qed

lemma example_fl_small:
  "example_fl 0 = 0" "example_fl 1 = 1" "example_fl 2 = 2"
  "example_fl (- 1) = - 1" "example_fl (- 3) = - 3"
  using example_fl_int[of 0] example_fl_int[of 1] example_fl_int[of 2]
    example_fl_int[of "- 1"] example_fl_int[of "- 3"]
  by simp_all

lemma example_fl_below_one: "example_fl (1 - 1 / 2 ^ 57) = 1"
proof -
  have "round ((1 - 1 / 2 ^ 57) * 2 ^ 53 :: real) = 2 ^ 53"
    by (rule round_unique) simp_all
  then show ?thesis by (simp add: example_fl_def)
qed

text \<open>
  Claim C5, as amended. On a non-empty list of factors, \<^verbatim>\<open>quantizeReduce\<close> returns the
  \<^verbatim>\<open>reduce\<close> value of a member \<open>x\<close> of the list whose computed distance
  \<^verbatim>\<open>Math.abs(reduce - x.reduce)\<close>, the rounded difference, is least: every factor scanned
  before \<open>x\<close> has a strictly greater computed distance (so on a tie the earliest factor
  wins, by the strict comparison), and every factor scanned after \<open>x\<close> has one at least as
  great. Where the runtime subtracts the factors from the input without rounding, \<open>x\<close> is
  closest to the input in exact absolute difference, in the same sense. For the factors
  1, 2, 4 and the input 3, whose differences are doubles, the result is 2.
\<close>

theorem quantizeReduce_closest_computed:
  "(factors \<noteq> [] \<longrightarrow>
     (\<exists>pre x post. factors = pre @ x # post
        \<and> quantizeReduce fl r factors = Inr (reduce x)
        \<and> (\<forall>y\<in>set pre. \<bar>fl (r - reduce x)\<bar> < \<bar>fl (r - reduce y)\<bar>)
        \<and> (\<forall>y\<in>set post. \<bar>fl (r - reduce x)\<bar> \<le> \<bar>fl (r - reduce y)\<bar>)))
   \<and> (factors \<noteq> [] \<and> (\<forall>y\<in>set factors. fl (r - reduce y) = r - reduce y) \<longrightarrow>
     (\<exists>pre x post. factors = pre @ x # post
        \<and> quantizeReduce fl r factors = Inr (reduce x)
        \<and> (\<forall>y\<in>set pre. \<bar>r - reduce x\<bar> < \<bar>r - reduce y\<bar>)
        \<and> (\<forall>y\<in>set post. \<bar>r - reduce x\<bar> \<le> \<bar>r - reduce y\<bar>)))
   \<and> (fl 2 = 2 \<and> fl 1 = 1 \<and> fl (- 1) = - 1 \<longrightarrow>
        quantizeReduce fl 3 [\<lparr>reduce = 1, autofit = None\<rparr>, \<lparr>reduce = 2, autofit = None\<rparr>,
           \<lparr>reduce = 4, autofit = None\<rparr>] = Inr 2)"
proof (intro conjI impI)
  assume "factors \<noteq> []"
  then show "\<exists>pre x post. factors = pre @ x # post
        \<and> quantizeReduce fl r factors = Inr (reduce x)
        \<and> (\<forall>y\<in>set pre. \<bar>fl (r - reduce x)\<bar> < \<bar>fl (r - reduce y)\<bar>)
        \<and> (\<forall>y\<in>set post. \<bar>fl (r - reduce x)\<bar> \<le> \<bar>fl (r - reduce y)\<bar>)"
    by (rule quantizeReduce_split)
next
  assume a: "factors \<noteq> [] \<and> (\<forall>y\<in>set factors. fl (r - reduce y) = r - reduce y)"
  then have ne: "factors \<noteq> []"
    and ex: "\<And>y. y \<in> set factors \<Longrightarrow> fl (r - reduce y) = r - reduce y" by simp_all
  from quantizeReduce_split[OF ne, of fl r] obtain pre x post where
    s: "factors = pre @ x # post"
    and q: "quantizeReduce fl r factors = Inr (reduce x)"
    and p1: "\<forall>y\<in>set pre. \<bar>fl (r - reduce x)\<bar> < \<bar>fl (r - reduce y)\<bar>"
    and p2: "\<forall>y\<in>set post. \<bar>fl (r - reduce x)\<bar> \<le> \<bar>fl (r - reduce y)\<bar>"
    by blast
  have ex': "\<And>y. y \<in> set pre \<or> y = x \<or> y \<in> set post \<Longrightarrow> fl (r - reduce y) = r - reduce y"
    using ex s by auto
  have "\<forall>y\<in>set pre. \<bar>r - reduce x\<bar> < \<bar>r - reduce y\<bar>"
    using p1 ex' by simp
  moreover have "\<forall>y\<in>set post. \<bar>r - reduce x\<bar> \<le> \<bar>r - reduce y\<bar>"
    using p2 ex' by simp
  ultimately show "\<exists>pre x post. factors = pre @ x # post
        \<and> quantizeReduce fl r factors = Inr (reduce x)
        \<and> (\<forall>y\<in>set pre. \<bar>r - reduce x\<bar> < \<bar>r - reduce y\<bar>)
        \<and> (\<forall>y\<in>set post. \<bar>r - reduce x\<bar> \<le> \<bar>r - reduce y\<bar>)"
    using s q by blast
next
  assume "fl 2 = 2 \<and> fl 1 = 1 \<and> fl (- 1) = - 1"
  then show "quantizeReduce fl 3 [\<lparr>reduce = 1, autofit = None\<rparr>, \<lparr>reduce = 2, autofit = None\<rparr>,
         \<lparr>reduce = 4, autofit = None\<rparr>] = Inr 2"
    by (simp add: quantizeReduce_def)
qed

theorem quantizeReduce_closest_computed_witness:
  "quantizeReduce example_fl 3 [\<lparr>reduce = 1, autofit = None\<rparr>, \<lparr>reduce = 2, autofit = None\<rparr>,
      \<lparr>reduce = 4, autofit = None\<rparr>] = Inr 2
   \<and> (\<exists>pre x post.
        [\<lparr>reduce = 2, autofit = None\<rparr>, \<lparr>reduce = 4, autofit = None\<rparr>] = pre @ x # post
        \<and> quantizeReduce example_fl 3 [\<lparr>reduce = 2, autofit = None\<rparr>, \<lparr>reduce = 4, autofit = None\<rparr>]
            = Inr (reduce x)
        \<and> (\<forall>y\<in>set pre. \<bar>3 - reduce x\<bar> < \<bar>3 - reduce y\<bar>)
        \<and> (\<forall>y\<in>set post. \<bar>3 - reduce x\<bar> \<le> \<bar>3 - reduce y\<bar>))"
proof -
  note t = quantizeReduce_closest_computed
    [of "[\<lparr>reduce = 2, autofit = None\<rparr>, \<lparr>reduce = 4, autofit = None\<rparr>]" example_fl 3]
  have h: "[\<lparr>reduce = 2, autofit = None\<rparr>, \<lparr>reduce = 4, autofit = None\<rparr>] \<noteq> []
      \<and> (\<forall>y\<in>set [\<lparr>reduce = 2, autofit = None\<rparr>, \<lparr>reduce = 4, autofit = None\<rparr>].
            example_fl (3 - reduce y) = 3 - reduce y)"
    by (simp add: example_fl_small)
  have s: "example_fl 2 = 2 \<and> example_fl 1 = 1 \<and> example_fl (- 1) = - 1"
    by (simp add: example_fl_small)
  from t[THEN conjunct2, THEN conjunct2, THEN mp, OF s]
       t[THEN conjunct2, THEN conjunct1, THEN mp, OF h]
  show ?thesis by (intro conjI)
qed

text \<open>
  Claim C5 as stated fails where a difference is rounded: for the input 1 and the factors
  2 and \<open>2^-57\<close>, the second factor is strictly closer to 1, but \<open>1 - 2^-57\<close> is rounded to 1,
  the distance of the first factor, and the result is 2.
\<close>

theorem quantizeReduce_rounding_counterexample:
  "quantizeReduce example_fl 1 [\<lparr>reduce = 2, autofit = None\<rparr>, \<lparr>reduce = 1 / 2 ^ 57, autofit = None\<rparr>]
     = Inr 2
   \<and> \<bar>1 - 1 / 2 ^ 57\<bar> < \<bar>1 - (2::real)\<bar>"
proof -
  have d: "example_fl (144115188075855871 / 144115188075855872) = 1"
    using example_fl_below_one by simp
  show ?thesis by (simp add: quantizeReduce_def example_fl_small d)
qed

lemma in_loop_range:
  "k < length rfs \<Longrightarrow> in_loop c rfs i k < length rfs"
proof (induction c rfs i k rule: in_loop.induct)
  case (1 c rfs i k)
  show ?case
  proof (cases "i < length rfs")
    case False
    then show ?thesis using "1.prems" by (subst in_loop.simps) simp
  next
    case True
    let ?k' = "if reduce (rfs ! i) < c then i else k"
    have e: "in_loop c rfs i k = in_loop c rfs (Suc i) ?k'"
      using True by (subst in_loop.simps) simp
    have "?k' < length rfs" using True "1.prems" by simp
    from "1.IH"[OF True this] show ?thesis unfolding e .
  qed
qed

lemma in_loop_choice:
  "in_loop c rfs i k = k \<or>
   (i \<le> in_loop c rfs i k \<and> in_loop c rfs i k < length rfs
      \<and> reduce (rfs ! in_loop c rfs i k) < c)"
proof (induction c rfs i k rule: in_loop.induct)
  case (1 c rfs i k)
  show ?case
  proof (cases "i < length rfs")
    case False
    then have "in_loop c rfs i k = k" by (subst in_loop.simps) simp
    then show ?thesis by simp
  next
    case True
    let ?k' = "if reduce (rfs ! i) < c then i else k"
    have e: "in_loop c rfs i k = in_loop c rfs (Suc i) ?k'"
      using True by (subst in_loop.simps) simp
    from "1.IH"[OF True] have
      "in_loop c rfs (Suc i) ?k' = ?k' \<or>
       (Suc i \<le> in_loop c rfs (Suc i) ?k' \<and> in_loop c rfs (Suc i) ?k' < length rfs
          \<and> reduce (rfs ! in_loop c rfs (Suc i) ?k') < c)" .
    then show ?thesis unfolding e using True by (auto split: if_splits)
  qed
qed

lemma in_loop_greatest:
  "i \<le> j \<Longrightarrow> j < length rfs \<Longrightarrow> reduce (rfs ! j) < c \<Longrightarrow> j \<le> in_loop c rfs i k"
proof (induction c rfs i k rule: in_loop.induct)
  case (1 c rfs i k)
  from "1.prems" have True: "i < length rfs" by simp
  let ?k' = "if reduce (rfs ! i) < c then i else k"
  have e: "in_loop c rfs i k = in_loop c rfs (Suc i) ?k'"
    using True by (subst in_loop.simps) simp
  show ?case
  proof (cases "i = j")
    case False
    with "1.prems" have "Suc i \<le> j" by simp
    from "1.IH"[OF True this "1.prems"(2,3)] show ?thesis unfolding e .
  next
    case True
    then have k': "?k' = j" using "1.prems" by simp
    from in_loop_choice[of c rfs "Suc i" ?k'] show ?thesis
      unfolding e k' using True by auto
  qed
qed

text \<open>
  Claim C7. On a non-empty list of factors sorted ascending by \<^verbatim>\<open>reduce\<close>, if some factor
  is strictly below \<^verbatim>\<open>currentReduce\<close> then \<^verbatim>\<open>nextReduce(currentReduce, 'in', factors)\<close>
  returns a member of the list whose \<^verbatim>\<open>reduce\<close> is strictly below \<^verbatim>\<open>currentReduce\<close> and
  at least as large as that of every factor strictly below \<^verbatim>\<open>currentReduce\<close>.
\<close>

theorem nextReduce_in_greatest:
  assumes ne: "rfs \<noteq> []" and asc: "sorted_wrt (\<lambda>a b. reduce a \<le> reduce b) rfs"
    and ex: "\<exists>f\<in>set rfs. reduce f < c"
  shows "\<exists>g. nextReduce c ''in'' rfs = Some g \<and> g \<in> set rfs \<and> reduce g < c
           \<and> (\<forall>f\<in>set rfs. reduce f < c \<longrightarrow> reduce f \<le> reduce g)"
proof -
  let ?n = "in_loop c rfs 1 0"
  have len: "0 < length rfs" using ne by simp
  have rng: "?n < length rfs" using in_loop_range[OF len] .
  have nr: "nextReduce c ''in'' rfs = Some (rfs ! ?n)"
    using rng by (simp add: nextReduce_def js_index_def)
  have mem: "rfs ! ?n \<in> set rfs" using rng by simp
  have mono: "\<And>a b. a \<le> b \<Longrightarrow> b < length rfs \<Longrightarrow> reduce (rfs ! a) \<le> reduce (rfs ! b)"
  proof -
    fix a b :: nat assume "a \<le> b" "b < length rfs"
    then show "reduce (rfs ! a) \<le> reduce (rfs ! b)"
      using asc by (cases "a = b") (auto simp: sorted_wrt_iff_nth_less)
  qed
  have ub: "\<And>j. j < length rfs \<Longrightarrow> reduce (rfs ! j) < c \<Longrightarrow> reduce (rfs ! j) \<le> reduce (rfs ! ?n)"
  proof -
    fix j assume j: "j < length rfs" "reduce (rfs ! j) < c"
    show "reduce (rfs ! j) \<le> reduce (rfs ! ?n)"
    proof (cases "j = 0")
      case True
      then show ?thesis using mono[of 0 ?n] rng by simp
    next
      case False
      then have "1 \<le> j" by simp
      from in_loop_greatest[OF this j] have "j \<le> ?n" .
      then show ?thesis using mono rng by simp
    qed
  qed
  have below: "reduce (rfs ! ?n) < c"
  proof -
    from ex obtain j where j: "j < length rfs" "reduce (rfs ! j) < c"
      by (auto simp: in_set_conv_nth)
    from in_loop_choice[of c rfs 1 0] show ?thesis
    proof
      assume z: "?n = 0"
      have "reduce (rfs ! 0) \<le> reduce (rfs ! j)" using mono[of 0 j] j by simp
      then show ?thesis using j z by simp
    next
      assume "1 \<le> ?n \<and> ?n < length rfs \<and> reduce (rfs ! ?n) < c"
      then show ?thesis by simp
    qed
  qed
  have "\<forall>f\<in>set rfs. reduce f < c \<longrightarrow> reduce f \<le> reduce (rfs ! ?n)"
    using ub by (auto simp: in_set_conv_nth)
  with nr mem below show ?thesis by blast
qed

theorem nextReduce_in_greatest_witness:
  "[\<lparr>reduce = 1, autofit = None\<rparr>, \<lparr>reduce = 2, autofit = None\<rparr>,
     \<lparr>reduce = 4, autofit = None\<rparr>] \<noteq> []
   \<and> sorted_wrt (\<lambda>a b. reduce a \<le> reduce b)
        [\<lparr>reduce = 1, autofit = None\<rparr>, \<lparr>reduce = 2, autofit = None\<rparr>,
         \<lparr>reduce = 4, autofit = None\<rparr>]
   \<and> (\<exists>g. nextReduce 3 ''in''
          [\<lparr>reduce = 1, autofit = None\<rparr>, \<lparr>reduce = 2, autofit = None\<rparr>,
           \<lparr>reduce = 4, autofit = None\<rparr>] = Some g
        \<and> g \<in> set [\<lparr>reduce = 1, autofit = None\<rparr>, \<lparr>reduce = 2, autofit = None\<rparr>,
                    \<lparr>reduce = 4, autofit = None\<rparr>]
        \<and> reduce g < 3
        \<and> (\<forall>f\<in>set [\<lparr>reduce = 1, autofit = None\<rparr>, \<lparr>reduce = 2, autofit = None\<rparr>,
                       \<lparr>reduce = 4, autofit = None\<rparr>]. reduce f < 3 \<longrightarrow> reduce f \<le> reduce g))"
proof -
  let ?rfs = "[\<lparr>reduce = 1, autofit = None\<rparr>, \<lparr>reduce = 2, autofit = None\<rparr>,
               \<lparr>reduce = 4, autofit = None\<rparr>]"
  have ne: "?rfs \<noteq> []" by simp
  have asc: "sorted_wrt (\<lambda>a b. reduce a \<le> reduce b) ?rfs" by simp
  have ex: "\<exists>f\<in>set ?rfs. reduce f < 3" by simp
  from nextReduce_in_greatest [OF ne asc ex] ne asc show ?thesis by blast
qed


lemma in_loop_none:
  "(\<forall>j. i \<le> j \<and> j < length rfs \<longrightarrow> \<not> reduce (rfs ! j) < c) \<Longrightarrow> in_loop c rfs i k = k"
proof (induction c rfs i k rule: in_loop.induct)
  case (1 c rfs i k)
  show ?case
  proof (cases "i < length rfs")
    case False
    then show ?thesis by (subst in_loop.simps) simp
  next
    case True
    then have n: "\<not> reduce (rfs ! i) < c" using "1.prems" by simp
    have e: "in_loop c rfs i k = in_loop c rfs (Suc i) k"
      using True n by (subst in_loop.simps) simp
    have "\<forall>j. Suc i \<le> j \<and> j < length rfs \<longrightarrow> \<not> reduce (rfs ! j) < c"
      using "1.prems" by simp
    from "1.IH"[OF True] this n show ?thesis unfolding e by simp
  qed
qed

lemma out_loop_none:
  "(\<forall>j<n. \<not> reduce (rfs ! j) > c) \<Longrightarrow> out_loop c rfs n k = k"
  by (induction n arbitrary: k) simp_all

lemma find_none: "(\<forall>x\<in>set xs. \<not> P x) \<Longrightarrow> find P xs = None"
  by (simp add: find_None_iff)

lemma filter_none: "(\<forall>x\<in>set xs. \<not> P x) \<Longrightarrow> filter P xs = []"
  by (induction xs) simp_all

text \<open>
  Claim C6, as amended. On a non-empty list of factors: when no factor is strictly below
  \<^verbatim>\<open>currentReduce\<close>, direction \<^verbatim>\<open>'in'\<close> returns the first element; when no factor is
  strictly above \<^verbatim>\<open>currentReduce\<close>, direction \<^verbatim>\<open>'out'\<close> returns the last element (not the
  first); when no factor is tagged \<^verbatim>\<open>'auto'\<close>, \<^verbatim>\<open>'height'\<close> or \<^verbatim>\<open>'width'\<close>, direction
  \<^verbatim>\<open>'auto'\<close> returns the first element; when no factor carries the requested tag,
  directions \<^verbatim>\<open>'height'\<close> and \<^verbatim>\<open>'width'\<close> return the first element.
\<close>

theorem nextReduce_fallback:
  assumes ne: "rfs \<noteq> []"
  shows "((\<forall>f\<in>set rfs. \<not> reduce f < c) \<longrightarrow> nextReduce c ''in'' rfs = Some (hd rfs))
       \<and> ((\<forall>f\<in>set rfs. \<not> reduce f > c) \<longrightarrow> nextReduce c ''out'' rfs = Some (last rfs))
       \<and> ((\<forall>f\<in>set rfs. autofit f \<noteq> Some ''auto'' \<and> autofit f \<noteq> Some ''height''
              \<and> autofit f \<noteq> Some ''width'')
            \<longrightarrow> nextReduce c ''auto'' rfs = Some (hd rfs))
       \<and> ((\<forall>f\<in>set rfs. autofit f \<noteq> Some ''height'')
            \<longrightarrow> nextReduce c ''height'' rfs = Some (hd rfs))
       \<and> ((\<forall>f\<in>set rfs. autofit f \<noteq> Some ''width'')
            \<longrightarrow> nextReduce c ''width'' rfs = Some (hd rfs))"
proof (intro conjI impI)
  have z: "js_index rfs 0 = Some (hd rfs)"
    using ne by (simp add: js_index_def hd_conv_nth)
  {
    assume "\<forall>f\<in>set rfs. \<not> reduce f < c"
    then have "in_loop c rfs 1 0 = 0" by (intro in_loop_none) simp
    then show "nextReduce c ''in'' rfs = Some (hd rfs)"
      using z by (simp add: nextReduce_def)
  }
  {
    assume "\<forall>f\<in>set rfs. \<not> reduce f > c"
    then have "out_loop c rfs (length rfs) (int (length rfs) - 1) = int (length rfs) - 1"
      by (intro out_loop_none) simp
    moreover have "js_index rfs (int (length rfs) - 1) = Some (last rfs)"
      using ne by (simp add: js_index_def last_conv_nth nat_diff_distrib')
    ultimately show "nextReduce c ''out'' rfs = Some (last rfs)"
      by (simp add: nextReduce_def)
  }
  {
    assume a: "\<forall>f\<in>set rfs. autofit f \<noteq> Some ''auto'' \<and> autofit f \<noteq> Some ''height''
              \<and> autofit f \<noteq> Some ''width''"
    then have "find (\<lambda>rf. autofit rf = Some ''auto'') rfs = None"
      by (intro find_none) simp
    moreover have "filter (\<lambda>rf. autofit rf = Some ''height'' \<or> autofit rf = Some ''width'') rfs = []"
      using a by (intro filter_none) simp
    ultimately show "nextReduce c ''auto'' rfs = Some (hd rfs)"
      using z by (simp add: nextReduce_def)
  }
  {
    assume "\<forall>f\<in>set rfs. autofit f \<noteq> Some ''height''"
    then have "find (\<lambda>rf. autofit rf = Some ''height'') rfs = None"
      by (intro find_none) simp
    then show "nextReduce c ''height'' rfs = Some (hd rfs)"
      using z by (simp add: nextReduce_def)
  }
  {
    assume "\<forall>f\<in>set rfs. autofit f \<noteq> Some ''width''"
    then have "find (\<lambda>rf. autofit rf = Some ''width'') rfs = None"
      by (intro find_none) simp
    then show "nextReduce c ''width'' rfs = Some (hd rfs)"
      using z by (simp add: nextReduce_def)
  }
qed

text \<open>
  Claim C6 as stated fails for direction \<^verbatim>\<open>'out'\<close>: with the factors 1, 2 and
  \<^verbatim>\<open>currentReduce = 5\<close> no factor is strictly above, and the result is the last factor,
  2, not the first.
\<close>

theorem nextReduce_out_fallback_counterexample:
  "\<not> (2::real) > 5 \<and> \<not> (1::real) > 5
   \<and> nextReduce 5 ''out'' [\<lparr>reduce = 1, autofit = None\<rparr>, \<lparr>reduce = 2, autofit = None\<rparr>]
       = Some \<lparr>reduce = 2, autofit = None\<rparr>
   \<and> nextReduce 5 ''out'' [\<lparr>reduce = 1, autofit = None\<rparr>, \<lparr>reduce = 2, autofit = None\<rparr>]
       \<noteq> Some (hd [\<lparr>reduce = 1, autofit = None\<rparr>, \<lparr>reduce = 2, autofit = None\<rparr>])"
  by (simp add: nextReduce_def js_index_def numeral_2_eq_2)

theorem nextReduce_fallback_witness:
  "[\<lparr>reduce = 1, autofit = None\<rparr>, \<lparr>reduce = 2, autofit = None\<rparr>] \<noteq> []
   \<and> nextReduce 1 ''in'' [\<lparr>reduce = 1, autofit = None\<rparr>, \<lparr>reduce = 2, autofit = None\<rparr>]
       = Some \<lparr>reduce = 1, autofit = None\<rparr>
   \<and> nextReduce 5 ''out'' [\<lparr>reduce = 1, autofit = None\<rparr>, \<lparr>reduce = 2, autofit = None\<rparr>]
       = Some \<lparr>reduce = 2, autofit = None\<rparr>
   \<and> nextReduce 1 ''auto'' [\<lparr>reduce = 1, autofit = None\<rparr>, \<lparr>reduce = 2, autofit = None\<rparr>]
       = Some \<lparr>reduce = 1, autofit = None\<rparr>
   \<and> nextReduce 1 ''height'' [\<lparr>reduce = 1, autofit = None\<rparr>, \<lparr>reduce = 2, autofit = None\<rparr>]
       = Some \<lparr>reduce = 1, autofit = None\<rparr>
   \<and> nextReduce 1 ''width'' [\<lparr>reduce = 1, autofit = None\<rparr>, \<lparr>reduce = 2, autofit = None\<rparr>]
       = Some \<lparr>reduce = 1, autofit = None\<rparr>"
  using nextReduce_fallback [of "[\<lparr>reduce = 1, autofit = None\<rparr>, \<lparr>reduce = 2, autofit = None\<rparr>]" 1]
        nextReduce_fallback [of "[\<lparr>reduce = 1, autofit = None\<rparr>, \<lparr>reduce = 2, autofit = None\<rparr>]" 5]
  by simp

section \<open>Properties of navigation\<close>

lemma jumpToIndex_redirect:
  assumes "\<not> isViewable (getPage (book br) i)"
    and "unviewablesStart (getPage (book br) i) = Some s"
    and "s \<noteq> page_index (getPage (book br) i)"
    and "isIndexDisplayed (Some s) br = Inr shown"
  shows "jumpToIndex i args br =
           (if shown then
              (case findNext_index (getPage (book br) i) of
                 Some n \<Rightarrow> jumpToIndex n args br
               | None \<Rightarrow> Some (Inr br))
            else jumpToIndex s args br)"
  using assms by (subst jumpToIndex.simps) (simp add: Let_def)

lemma jumpToIndex_direct:
  assumes "isViewable (getPage (book br) i)
           \<or> unviewablesStart (getPage (book br) i) = Some (page_index (getPage (book br) i))"
    and "activeMode br = Some m"
  shows "jumpToIndex i args br = Some (Inr (call (ModeJumpToIndex m i args) (trigger EvStop br)))"
  using assms by (subst jumpToIndex.simps) (auto simp: Let_def trigger_def split: mode_value.splits)

text \<open>
  Claim C1. Let page \<open>i\<close> be not viewable, with the start \<open>s\<close> of its unviewable run
  different from \<open>i\<close>, in a viewer whose mode has a renderer \<open>m\<close>. If \<open>s\<close> is not displayed,
  \<^verbatim>\<open>jumpToIndex(i)\<close> is \<^verbatim>\<open>jumpToIndex(s)\<close>, which (\<open>s\<close> being the start of its own run) emits
  \<^verbatim>\<open>stop\<close> and has the renderer jump to \<open>s\<close>. If \<open>s\<close> is displayed and \<^verbatim>\<open>findNext\<close> gives no
  page, the call returns with the state unchanged; if it gives the index \<open>n\<close>, the call is
  \<^verbatim>\<open>jumpToIndex(n)\<close>, which (\<open>n\<close> being viewable) emits \<^verbatim>\<open>stop\<close> and has the renderer jump to
  \<open>n\<close>. The closed example after it is the run that starts at 10 with next viewable index
  14: the jump to 12 lands on 10, on 14 once 10 is displayed, and is abandoned in the book
  that ends with the run.
\<close>

theorem jumpToIndex_unviewable_run:
  assumes nv: "\<not> isViewable (getPage (book br) i)"
    and st: "unviewablesStart (getPage (book br) i) = Some s"
    and ns: "s \<noteq> page_index (getPage (book br) i)"
    and disp: "isIndexDisplayed (Some s) br = Inr shown"
    and am: "activeMode br = Some m"
  shows "(\<not> shown \<longrightarrow> jumpToIndex i args br = jumpToIndex s args br)
       \<and> (\<not> shown \<and> unviewablesStart (getPage (book br) s) = Some (page_index (getPage (book br) s))
            \<longrightarrow> jumpToIndex i args br
                  = Some (Inr (call (ModeJumpToIndex m s args) (trigger EvStop br))))
       \<and> (shown \<and> findNext_index (getPage (book br) i) = None
            \<longrightarrow> jumpToIndex i args br = Some (Inr br))
       \<and> (\<forall>n. shown \<and> findNext_index (getPage (book br) i) = Some n
            \<longrightarrow> jumpToIndex i args br = jumpToIndex n args br)
       \<and> (\<forall>n. shown \<and> findNext_index (getPage (book br) i) = Some n
               \<and> isViewable (getPage (book br) n)
            \<longrightarrow> jumpToIndex i args br
                  = Some (Inr (call (ModeJumpToIndex m n args) (trigger EvStop br))))"
proof -
  note r = jumpToIndex_redirect[OF nv st ns disp, of args]
  have a: "\<not> shown \<longrightarrow> jumpToIndex i args br = jumpToIndex s args br"
    using r by simp
  have b: "\<not> shown \<and> unviewablesStart (getPage (book br) s) = Some (page_index (getPage (book br) s))
            \<longrightarrow> jumpToIndex i args br
                  = Some (Inr (call (ModeJumpToIndex m s args) (trigger EvStop br)))"
    using r jumpToIndex_direct[OF _ am, of s args] by simp
  have c: "shown \<and> findNext_index (getPage (book br) i) = None
            \<longrightarrow> jumpToIndex i args br = Some (Inr br)"
    using r by simp
  have d: "\<forall>n. shown \<and> findNext_index (getPage (book br) i) = Some n
            \<longrightarrow> jumpToIndex i args br = jumpToIndex n args br"
    using r by simp
  have e: "\<forall>n. shown \<and> findNext_index (getPage (book br) i) = Some n
               \<and> isViewable (getPage (book br) n)
            \<longrightarrow> jumpToIndex i args br
                  = Some (Inr (call (ModeJumpToIndex m n args) (trigger EvStop br)))"
  proof (intro allI impI)
    fix n assume h: "shown \<and> findNext_index (getPage (book br) i) = Some n
               \<and> isViewable (getPage (book br) n)"
    then have "jumpToIndex i args br = jumpToIndex n args br" using r by simp
    also have "\<dots> = Some (Inr (call (ModeJumpToIndex m n args) (trigger EvStop br)))"
      using h by (intro jumpToIndex_direct[OF _ am]) simp
    finally show "jumpToIndex i args br
                  = Some (Inr (call (ModeJumpToIndex m n args) (trigger EvStop br)))" .
  qed
  from a b c d e show ?thesis by blast
qed

lemma example_run:
  assumes "book br = example_book n"
  shows "\<not> isViewable (getPage (book br) 12)"
    and "unviewablesStart (getPage (book br) 12) = Some 10"
    and "10 \<noteq> page_index (getPage (book br) 12)"
    and "unviewablesStart (getPage (book br) 10) = Some (page_index (getPage (book br) 10))"
    and "findNext_index (getPage (book br) 12) = (if 14 < n then Some 14 else None)"
    and "isViewable (getPage (book br) 14)"
  unfolding assms by (simp_all add: example_book_def)

theorem jumpToIndex_unviewable_run_witness:
  "jumpToIndex 12 example_args (example_br 20)
     = Some (Inr (call (ModeJumpToIndex 1 10 example_args) (trigger EvStop (example_br 20))))
   \<and> jumpToIndex 12 example_args ((example_br 20)\<lparr>displayedIndices := Some [10]\<rparr>)
     = Some (Inr (call (ModeJumpToIndex 1 14 example_args)
                    (trigger EvStop ((example_br 20)\<lparr>displayedIndices := Some [10]\<rparr>))))
   \<and> jumpToIndex 12 example_args ((example_br 14)\<lparr>displayedIndices := Some [10]\<rparr>)
     = Some (Inr ((example_br 14)\<lparr>displayedIndices := Some [10]\<rparr>))"
proof -
  let ?b = "example_br 20"
  let ?c = "(example_br 20)\<lparr>displayedIndices := Some [10]\<rparr>"
  let ?d = "(example_br 14)\<lparr>displayedIndices := Some [10]\<rparr>"
  have bb: "book ?b = example_book 20" and bc: "book ?c = example_book 20"
    and bd: "book ?d = example_book 14"
    by (simp_all add: example_br_def)
  have db: "isIndexDisplayed (Some 10) ?b = Inr False"
    and dc: "isIndexDisplayed (Some 10) ?c = Inr True"
    and dd: "isIndexDisplayed (Some 10) ?d = Inr True"
    by (simp_all add: isIndexDisplayed_def example_br_def)
  have ab: "activeMode ?b = Some 1" and ac: "activeMode ?c = Some 1"
    and ad: "activeMode ?d = Some 1"
    by (simp_all add: example_br_def)
  have 1: "jumpToIndex 12 example_args ?b
     = Some (Inr (call (ModeJumpToIndex 1 10 example_args) (trigger EvStop ?b)))"
    using jumpToIndex_unviewable_run[OF example_run(1-3)[OF bb] db ab, of example_args]
      example_run(4)[OF bb] by blast
  have 2: "jumpToIndex 12 example_args ?c
     = Some (Inr (call (ModeJumpToIndex 1 14 example_args) (trigger EvStop ?c)))"
    using jumpToIndex_unviewable_run[OF example_run(1-3)[OF bc] dc ac, of example_args]
      example_run(5,6)[OF bc] by auto
  have 3: "jumpToIndex 12 example_args ?d = Some (Inr ?d)"
    using jumpToIndex_unviewable_run[OF example_run(1-3)[OF bd] dd ad, of example_args]
      example_run(5)[OF bd] by auto
  from 1 2 3 show ?thesis by (intro conjI)
qed

section \<open>Properties of mode switching\<close>

lemma switchMode_invalid:
  "\<not> truthy (resolve_mode arg) \<Longrightarrow> switchMode fl arg sfc br = Inl (InvalidMode, br)"
  by (simp add: switchMode_def Let_def)

lemma switchMode_rejected:
  assumes "initComplete br" and "getNumLeafs (book br) < 2"
    and "resolve_mode arg = Num constMode2up \<or> resolve_mode arg = Num constModeThumb"
  shows "switchMode fl arg sfc br = Inr br"
  using assms
  by (auto simp: switchMode_def Let_def canSwitchToMode_def strict_eq_def constMode2up_def
      constModeThumb_def)

lemma unprepare_throws: "switchMode_unprepare m br = Inl (e, b) \<Longrightarrow> b = br"
  by (auto simp: switchMode_unprepare_def split: if_splits option.splits)

lemma unprepare_returns:
  "switchMode_unprepare m br = Inr b \<Longrightarrow>
     (\<exists>r. trace b = trace br @ r) \<and> pageScale b = pageScale br \<and> reduce_br b = reduce_br br"
  by (auto simp: switchMode_unprepare_def call_def split: if_splits option.splits)

lemma prepare_throws: "switchMode_prepare fl m br = Inl (e, b) \<Longrightarrow> b = br"
  by (auto simp: switchMode_prepare_def split: if_splits sum.splits)

lemma prepare_returns:
  "switchMode_prepare fl m br = Inr b \<Longrightarrow> (\<exists>r. trace b = trace br @ r) \<and> mode b = mode br"
  by (auto simp: switchMode_prepare_def call_def split: if_splits sum.splits)

lemma announce_keeps:
  "(\<exists>r. trace (switchMode_announce m sfc br) = trace br @ r)
   \<and> mode (switchMode_announce m sfc br) = mode br"
  by (simp add: switchMode_announce_def Let_def trigger_def call_def)

lemma switchMode_applied:
  assumes tr: "truthy (resolve_mode arg)"
    and g: "\<not> initComplete br \<or> (resolve_mode arg \<noteq> mode br \<and> canSwitchToMode br (resolve_mode arg))"
  shows "(\<exists>rest. trace (outcome_state (switchMode fl arg sfc br)) = trace br @ Trigger EvStop # rest)
       \<and> (\<forall>br'. switchMode fl arg sfc br = Inr br' \<longrightarrow> mode br' = resolve_mode arg)"
proof -
  define m where "m = resolve_mode arg"
  define br2 where "br2 = (trigger EvStop br)
      \<lparr>prevReadMode := getPrevReadMode (trigger EvStop br) (mode (trigger EvStop br))\<rparr>"
  have t2: "trace br2 = trace br @ [Trigger EvStop]" by (simp add: br2_def trigger_def)
  have sw: "switchMode fl arg sfc br =
      (case switchMode_unprepare m br2 of
           Inl e \<Rightarrow> Inl e
         | Inr br3 \<Rightarrow>
             (let br4 = br3\<lparr>mode := m\<rparr>;
                  br5 = (if pageScale br4 \<noteq> reduce_br br4
                         then br4\<lparr>reduce_br := pageScale br4\<rparr> else br4)
              in
              case switchMode_prepare fl m br5 of
                Inl e \<Rightarrow> Inl e
              | Inr br6 \<Rightarrow> Inr (switchMode_announce m sfc br6)))"
    using tr g unfolding switchMode_def m_def br2_def Let_def by (auto simp: strict_eq_def)
  show ?thesis
  proof (cases "switchMode_unprepare m br2")
    case (Inl eb)
    obtain e b where eb: "eb = (e, b)" by (cases eb)
    from unprepare_throws[OF Inl[unfolded eb]] have "b = br2" .
    then show ?thesis unfolding sw Inl eb using t2 by simp
  next
    case (Inr br3)
    from unprepare_returns[OF Inr] obtain r3 where t3: "trace br3 = trace br2 @ r3" by blast
    define br5 where "br5 = (let br4 = br3\<lparr>mode := m\<rparr> in
         if pageScale br4 \<noteq> reduce_br br4 then br4\<lparr>reduce_br := pageScale br4\<rparr> else br4)"
    have t5: "trace br5 = trace br3" and m5: "mode br5 = m"
      by (simp_all add: br5_def Let_def)
    have sw2: "switchMode fl arg sfc br =
        (case switchMode_prepare fl m br5 of
                Inl e \<Rightarrow> Inl e
              | Inr br6 \<Rightarrow> Inr (switchMode_announce m sfc br6))"
      unfolding sw Inr br5_def Let_def by simp
    show ?thesis
    proof (cases "switchMode_prepare fl m br5")
      case (Inl eb)
      obtain e b where eb: "eb = (e, b)" by (cases eb)
      from prepare_throws[OF Inl[unfolded eb]] have "b = br5" .
      then show ?thesis unfolding sw2 Inl eb using t2 t3 t5 by simp
    next
      case (Inr br6)
      from prepare_returns[OF Inr] obtain r6 where
        t6: "trace br6 = trace br5 @ r6" and m6: "mode br6 = mode br5" by blast
      from announce_keeps[of m sfc br6] obtain r7 where
        t7: "trace (switchMode_announce m sfc br6) = trace br6 @ r7"
        and m7: "mode (switchMode_announce m sfc br6) = mode br6" by blast
      show ?thesis unfolding sw2 Inr using t2 t3 t5 t6 t7 m5 m6 m7 m_def by simp
    qed
  qed
qed


text \<open>
  Claim C2. After initialization, \<^verbatim>\<open>switchMode\<close> to the two-page or the thumbnail mode
  returns with the state unchanged (so with no event published) when the book has fewer
  than 2 leaves, in particular \<^verbatim>\<open>switchMode(Thumbnail)\<close> on a book of 1 leaf. On a book of
  2 leaves the switch to the thumbnail mode from another mode is applied: \<^verbatim>\<open>stop\<close> is
  published first and, when the call returns, the mode is the thumbnail mode. Before
  initialization completes \<^verbatim>\<open>canSwitchToMode\<close> is not consulted: every valid target is
  applied in the same sense, whatever the number of leaves.
\<close>

theorem switchMode_short_book:
  "(initComplete br \<and> getNumLeafs (book br) < 2
      \<and> (resolve_mode arg = Num constMode2up \<or> resolve_mode arg = Num constModeThumb)
     \<longrightarrow> switchMode fl arg sfc br = Inr br)
   \<and> (initComplete br \<and> getNumLeafs (book br) = 1
     \<longrightarrow> switchMode fl (ArgNum constModeThumb) sfc br = Inr br
         \<and> switchMode fl (ArgStr ''thumb'') sfc br = Inr br)
   \<and> (initComplete br \<and> getNumLeafs (book br) = 2 \<and> mode br \<noteq> Num constModeThumb
     \<longrightarrow> (\<exists>rest. trace (outcome_state (switchMode fl (ArgNum constModeThumb) sfc br))
                  = trace br @ Trigger EvStop # rest)
         \<and> (\<forall>br'. switchMode fl (ArgNum constModeThumb) sfc br = Inr br'
                \<longrightarrow> mode br' = Num constModeThumb))
   \<and> (\<not> initComplete br \<and> truthy (resolve_mode arg)
     \<longrightarrow> (\<exists>rest. trace (outcome_state (switchMode fl arg sfc br)) = trace br @ Trigger EvStop # rest)
         \<and> (\<forall>br'. switchMode fl arg sfc br = Inr br' \<longrightarrow> mode br' = resolve_mode arg))"
proof (intro conjI impI)
  assume "initComplete br \<and> getNumLeafs (book br) < 2
      \<and> (resolve_mode arg = Num constMode2up \<or> resolve_mode arg = Num constModeThumb)"
  then show "switchMode fl arg sfc br = Inr br" by (intro switchMode_rejected) simp_all
next
  assume a: "initComplete br \<and> getNumLeafs (book br) = 1"
  then show "switchMode fl (ArgNum constModeThumb) sfc br = Inr br"
    by (intro switchMode_rejected) simp_all
  from a show "switchMode fl (ArgStr ''thumb'') sfc br = Inr br"
    by (intro switchMode_rejected) (simp_all add: mode_of_string_def)
next
  assume a: "initComplete br \<and> getNumLeafs (book br) = 2 \<and> mode br \<noteq> Num constModeThumb"
  have tr: "truthy (resolve_mode (ArgNum constModeThumb))" by (simp add: constModeThumb_def)
  have g: "\<not> initComplete br \<or> (resolve_mode (ArgNum constModeThumb) \<noteq> mode br
             \<and> canSwitchToMode br (resolve_mode (ArgNum constModeThumb)))"
    using a by (auto simp: canSwitchToMode_def)
  note r = switchMode_applied[OF tr g, of fl sfc]
  from r show "\<exists>rest. trace (outcome_state (switchMode fl (ArgNum constModeThumb) sfc br))
                  = trace br @ Trigger EvStop # rest" by blast
  from r show "\<forall>br'. switchMode fl (ArgNum constModeThumb) sfc br = Inr br'
                \<longrightarrow> mode br' = Num constModeThumb" by simp
next
  assume a: "\<not> initComplete br \<and> truthy (resolve_mode arg)"
  then have tr: "truthy (resolve_mode arg)"
    and g: "\<not> initComplete br \<or> (resolve_mode arg \<noteq> mode br \<and> canSwitchToMode br (resolve_mode arg))"
    by simp_all
  note r = switchMode_applied[OF tr g, of fl sfc]
  from r show "\<exists>rest. trace (outcome_state (switchMode fl arg sfc br)) = trace br @ Trigger EvStop # rest"
    by blast
  from r show "\<forall>br'. switchMode fl arg sfc br = Inr br' \<longrightarrow> mode br' = resolve_mode arg" by blast
qed

lemmas switchMode_eval =
  switchMode_def switchMode_unprepare_def switchMode_prepare_def switchMode_announce_def
  trigger_def call_def getPrevReadMode_def canSwitchToMode_def quantizeReduce_def
  constMode1up_def constMode2up_def constModeThumb_def example_br_def example_book_def
  mode_of_string_def strict_eq_def example_fl_small

theorem switchMode_short_book_witness:
  "switchMode example_fl (ArgNum 3) False (example_br 1) = Inr (example_br 1)
   \<and> switchMode example_fl (ArgStr ''2up'') False (example_br 1) = Inr (example_br 1)
   \<and> switchMode example_fl (ArgNum 3) False (example_br 2)
       = Inr ((example_br 2)\<lparr>mode := Num 3, prevReadMode := Num 1,
                trace := [Trigger EvStop, Unprepare 1, Prepare 3, Trigger EvFragmentChange,
                          Trigger (EvPageViewSelected 3)]\<rparr>)
   \<and> switchMode example_fl (ArgNum 2) False ((example_br 1)\<lparr>initComplete := False\<rparr>)
       = Inr ((example_br 1)\<lparr>initComplete := False, mode := Num 2, prevReadMode := Num 1,
                trace := [Trigger EvStop, Unprepare 1, Prepare 2, Trigger EvFragmentChange,
                          Trigger (EvPageViewSelected 2)]\<rparr>)"
proof -
  have 1: "switchMode example_fl (ArgNum 3) False (example_br 1) = Inr (example_br 1)"
    using switchMode_short_book[where br="example_br 1" and arg="ArgNum 3" and fl=example_fl and sfc=False]
    by (simp add: example_br_def example_book_def constModeThumb_def)
  have 2: "switchMode example_fl (ArgStr ''2up'') False (example_br 1) = Inr (example_br 1)"
    using switchMode_short_book[where br="example_br 1" and arg="ArgStr ''2up''" and fl=example_fl and sfc=False]
    by (simp add: example_br_def example_book_def mode_of_string_def)
  have 3: "switchMode example_fl (ArgNum 3) False (example_br 2)
       = Inr ((example_br 2)\<lparr>mode := Num 3, prevReadMode := Num 1,
                trace := [Trigger EvStop, Unprepare 1, Prepare 3, Trigger EvFragmentChange,
                          Trigger (EvPageViewSelected 3)]\<rparr>)"
    by (simp add: switchMode_eval Let_def)
  have 4: "switchMode example_fl (ArgNum 2) False ((example_br 1)\<lparr>initComplete := False\<rparr>)
       = Inr ((example_br 1)\<lparr>initComplete := False, mode := Num 2, prevReadMode := Num 1,
                trace := [Trigger EvStop, Unprepare 1, Prepare 2, Trigger EvFragmentChange,
                          Trigger (EvPageViewSelected 2)]\<rparr>)"
    by (simp add: switchMode_eval Let_def)
  from 1 2 3 4 show ?thesis by (intro conjI)
qed

text \<open>
  Claim C3, which the code breaks. The claim asks that every mode argument other than
  the constants 1, 2, 3 and the strings \<^verbatim>\<open>1up\<close>, \<^verbatim>\<open>2up\<close>, \<^verbatim>\<open>thumb\<close> makes \<^verbatim>\<open>switchMode\<close>
  throw with the state unchanged. The code does so for the string \<^verbatim>\<open>3up\<close>, for the number 0
  and for NaN. For the number 7, on a viewer in one-page mode after initialization, the
  call returns: it has published \<^verbatim>\<open>stop\<close>, unprepared the one-page renderer, set the mode
  to 7, prepared the two-page renderer and published \<^verbatim>\<open>fragmentChange\<close> and an event
  without a name. \<^verbatim>\<open>currentIndex\<close> throws on the viewer it leaves behind.
\<close>

theorem switchMode_accepts_7:
  "switchMode example_fl (ArgStr ''3up'') False (example_br 20) = Inl (InvalidMode, example_br 20)
   \<and> switchMode example_fl (ArgNum 0) False (example_br 20) = Inl (InvalidMode, example_br 20)
   \<and> switchMode example_fl ArgNaN False (example_br 20) = Inl (InvalidMode, example_br 20)
   \<and> switchMode example_fl (ArgNum 7) False (example_br 20)
       = Inr ((example_br 20)\<lparr>mode := Num 7, prevReadMode := Num 1,
                trace := [Trigger EvStop, Unprepare 1, Prepare 2, Trigger EvFragmentChange,
                          Trigger EvUndefined]\<rparr>)
   \<and> currentIndex ((example_br 20)\<lparr>mode := Num 7, prevReadMode := Num 1,
                trace := [Trigger EvStop, Unprepare 1, Prepare 2, Trigger EvFragmentChange,
                          Trigger EvUndefined]\<rparr>)
       = Inl (UnimplementedMode, (example_br 20)\<lparr>mode := Num 7, prevReadMode := Num 1,
                trace := [Trigger EvStop, Unprepare 1, Prepare 2, Trigger EvFragmentChange,
                          Trigger EvUndefined]\<rparr>)"
proof -
  have 1: "switchMode example_fl (ArgStr ''3up'') False (example_br 20)
             = Inl (InvalidMode, example_br 20)"
    by (rule switchMode_invalid) (simp add: mode_of_string_def object_prototype_keys_def)
  have 2: "switchMode example_fl (ArgNum 0) False (example_br 20) = Inl (InvalidMode, example_br 20)"
    by (rule switchMode_invalid) simp
  have 3: "switchMode example_fl ArgNaN False (example_br 20) = Inl (InvalidMode, example_br 20)"
    by (rule switchMode_invalid) simp
  have 4: "switchMode example_fl (ArgNum 7) False (example_br 20)
       = Inr ((example_br 20)\<lparr>mode := Num 7, prevReadMode := Num 1,
                trace := [Trigger EvStop, Unprepare 1, Prepare 2, Trigger EvFragmentChange,
                          Trigger EvUndefined]\<rparr>)"
    by (simp add: switchMode_eval Let_def)
  have 5: "currentIndex ((example_br 20)\<lparr>mode := Num 7, prevReadMode := Num 1,
                trace := [Trigger EvStop, Unprepare 1, Prepare 2, Trigger EvFragmentChange,
                          Trigger EvUndefined]\<rparr>)
       = Inl (UnimplementedMode, (example_br 20)\<lparr>mode := Num 7, prevReadMode := Num 1,
                trace := [Trigger EvStop, Unprepare 1, Prepare 2, Trigger EvFragmentChange,
                          Trigger EvUndefined]\<rparr>)"
    by (simp add: currentIndex_def constMode1up_def constMode2up_def constModeThumb_def)
  from 1 2 3 4 5 show ?thesis by (intro conjI)
qed

section \<open>Properties of updateFirstIndex\<close>

lemma updateFirstIndex_same: "firstIndex br = Some x \<Longrightarrow> updateFirstIndex x sfc br = br"
  by (simp add: updateFirstIndex_def)

lemma updateFirstIndex_sets: "firstIndex (updateFirstIndex x sfc br) = Some x"
  by (simp add: updateFirstIndex_def Let_def trigger_def call_def)

lemma updateFirstIndex_trace:
  "firstIndex br \<noteq> Some x \<Longrightarrow>
   trace (updateFirstIndex x sfc br)
     = trace br @ (if suppressFragmentChange br \<or> sfc then [] else [Trigger EvFragmentChange])
         @ [Trigger EvPageChanged, Trigger EvUserAction, UpdateNavIndexThrottled x]"
  by (simp add: updateFirstIndex_def Let_def trigger_def call_def)

text \<open>
  Claim C8, as amended. A second call \<^verbatim>\<open>updateFirstIndex(x)\<close> right after a first one, with
  any option, changes nothing and publishes nothing; after the first call \<^verbatim>\<open>firstIndex\<close>
  is \<open>x\<close>; a call with the current first index is a no-op. When \<open>x\<close> differs from the first
  index before the first call, the two calls together publish \<^verbatim>\<open>pageChanged\<close> and
  \<^verbatim>\<open>userAction\<close> once each and update the navbar once, and publish \<^verbatim>\<open>fragmentChange\<close>
  once unless the global flag or the option of the first call suppresses it.
\<close>

theorem updateFirstIndex_twice:
  "updateFirstIndex x sfc' (updateFirstIndex x sfc br) = updateFirstIndex x sfc br
   \<and> firstIndex (updateFirstIndex x sfc br) = Some x
   \<and> (firstIndex br = Some x \<longrightarrow> updateFirstIndex x sfc br = br)
   \<and> (firstIndex br \<noteq> Some x \<longrightarrow>
        trace (updateFirstIndex x sfc' (updateFirstIndex x sfc br))
          = trace br @ (if suppressFragmentChange br \<or> sfc then [] else [Trigger EvFragmentChange])
              @ [Trigger EvPageChanged, Trigger EvUserAction, UpdateNavIndexThrottled x])"
proof -
  have twice: "updateFirstIndex x sfc' (updateFirstIndex x sfc br) = updateFirstIndex x sfc br"
    by (rule updateFirstIndex_same) (rule updateFirstIndex_sets)
  show ?thesis
    unfolding twice
    using updateFirstIndex_sets[of x sfc br] updateFirstIndex_same[of br x sfc]
      updateFirstIndex_trace[of br x sfc]
    by blast
qed

theorem updateFirstIndex_twice_witness:
  "trace (updateFirstIndex 5 False (updateFirstIndex 5 False (example_br 20)))
     = [Trigger EvFragmentChange, Trigger EvPageChanged, Trigger EvUserAction,
        UpdateNavIndexThrottled 5]
   \<and> updateFirstIndex 0 False (example_br 20) = example_br 20"
proof -
  have f: "firstIndex (example_br 20) = Some 0" "\<not> suppressFragmentChange (example_br 20)"
    "trace (example_br 20) = []"
    by (simp_all add: example_br_def)
  note t5 = updateFirstIndex_twice[of 5 False False "example_br 20"]
  note t0 = updateFirstIndex_twice[of 0 False False "example_br 20"]
  have 1: "trace (updateFirstIndex 5 False (updateFirstIndex 5 False (example_br 20)))
     = [Trigger EvFragmentChange, Trigger EvPageChanged, Trigger EvUserAction,
        UpdateNavIndexThrottled 5]"
    using t5[THEN conjunct2, THEN conjunct2, THEN conjunct2] f by simp
  have 2: "updateFirstIndex 0 False (example_br 20) = example_br 20"
    using t0[THEN conjunct2, THEN conjunct2, THEN conjunct1] f by simp
  from 1 2 show ?thesis by (intro conjI)
qed

text \<open>
  Claim C8 as stated fails when fragment changes are suppressed: with the global flag
  set, two calls \<^verbatim>\<open>updateFirstIndex(5)\<close> from page 0 publish \<^verbatim>\<open>pageChanged\<close> once and
  \<^verbatim>\<open>fragmentChange\<close> not at all.
\<close>

theorem updateFirstIndex_suppressed_counterexample:
  "trace (updateFirstIndex 5 False (updateFirstIndex 5 False
            ((example_br 20)\<lparr>suppressFragmentChange := True\<rparr>)))
     = [Trigger EvPageChanged, Trigger EvUserAction, UpdateNavIndexThrottled 5]"
  by (simp add: updateFirstIndex_def Let_def trigger_def call_def example_br_def)

section \<open>Properties of initParams\<close>

lemma extend_fragmentChange:
  "p_fragmentChange newParams = None \<Longrightarrow>
   p_fragmentChange (extendParams bk params newParams) = p_fragmentChange params"
  by (simp add: extendParams_def extend_def orElse_def split: option.splits)

lemma paramsFromHash_no_flag:
  assumes "paramsFromHash env h = Inr p"
  shows "p_fragmentChange p = None"
proof -
  define params1 where "params1 =
        (if h ''mode'' = Some ''1up'' then empty_params\<lparr>p_mode := Some constMode1up\<rparr>
         else if h ''mode'' = Some ''2up'' then empty_params\<lparr>p_mode := Some constMode2up\<rparr>
         else if h ''mode'' = Some ''thumb'' then empty_params\<lparr>p_mode := Some constModeThumb\<rparr>
         else empty_params)"
  have f1: "p_fragmentChange params1 = None" by (simp add: params1_def empty_params_def)
  from assms have "p_fragmentChange p = p_fragmentChange params1"
    unfolding paramsFromHash_def Let_def params1_def[symmetric]
    by (cases "h ''page''"; cases "h ''search''"; cases "h ''theme''")
       (auto split: option.splits)
  then show ?thesis using f1 by simp
qed

lemma paramsFromFragment_no_flag:
  "paramsFromFragment env f = Inr p \<Longrightarrow> p_fragmentChange p = None"
  unfolding paramsFromFragment_def Let_def
  by (cases "all_digits (strip_hash f)") (auto simp: empty_params_def dest: paramsFromHash_no_flag)

lemma base_flag: "p_fragmentChange (initParams_base br) = Some False"
  by (simp add: initParams_base_def Let_def empty_params_def split: option.splits)

lemma defaults_flag:
  "initParams_defaults env br params = Inr p \<Longrightarrow> p_fragmentChange p = p_fragmentChange params"
  unfolding initParams_defaults_def
  by (cases "defaults br")
     (auto simp: extend_fragmentChange dest!: paramsFromFragment_no_flag split: if_splits sum.splits)

lemma resume_flag:
  assumes "p_fragmentChange params = Some False"
  shows "p_fragmentChange (initParams_resume br params)
           = Some (case plugins_resume br of
                     None \<Rightarrow> False
                   | Some rp \<Rightarrow> resume_enabled rp \<and>
                       (case getResumeValue rp of
                          None \<Rightarrow> False
                        | Some val \<Rightarrow> p_index params \<noteq> Some val))"
  using assms by (auto simp: initParams_resume_def split: option.splits)

lemma url_flag:
  assumes "initParams_url env br params = Inr p" and "p_fragmentChange params = Some b"
  shows "\<exists>u. urlParams env br = Inr u \<and> p_fragmentChange p = Some (b \<or> has_keys u)"
proof (cases "urlParams env br")
  case (Inl e)
  with assms(1) show ?thesis by (simp add: initParams_url_def)
next
  case (Inr u)
  with assms show ?thesis
    by (cases "has_keys u") (auto simp: initParams_url_def Let_def)
qed

lemma initParams_returns:
  assumes "initParams env br = Inr (params, br')"
  shows "(\<exists>b. p_fragmentChange params = Some b \<and> suppressFragmentChange br' = (\<not> b))
       \<and> (suppressFragmentChange br' \<longleftrightarrow> \<not> resume_differs env br \<and> \<not> url_sets_params env br)"
proof -
  from assms obtain params2 where d: "initParams_defaults env br (initParams_base br) = Inr params2"
    unfolding initParams_def by (cases "initParams_defaults env br (initParams_base br)") auto
  define params3 where "params3 = initParams_resume br params2"
  from assms d obtain params4 where
    u: "(if enableUrlPlugin br then initParams_url env br params3 else Inr params3) = Inr params4"
    unfolding initParams_def params3_def Let_def
    by (cases "if enableUrlPlugin br then initParams_url env br (initParams_resume br params2)
               else Inr (initParams_resume br params2)") auto
  from assms d u obtain br1 where
    s: "initParams_searchPlugin env params4 br = Inr br1"
    and r: "params = params4"
       "br' = br1\<lparr>suppressFragmentChange := \<not> truthy_flag (p_fragmentChange params4)\<rparr>"
    unfolding initParams_def params3_def Let_def
    by (cases "initParams_searchPlugin env params4 br") auto
  have f2: "p_fragmentChange params2 = Some False" using defaults_flag[OF d] base_flag by simp
  have f3: "p_fragmentChange params3 = Some (resume_differs env br)"
    unfolding params3_def resume_flag[OF f2] resume_differs_def d
    by (simp split: option.splits)
  have f4: "p_fragmentChange params4 = Some (resume_differs env br \<or> url_sets_params env br)"
  proof (cases "enableUrlPlugin br")
    case True
    with u have "initParams_url env br params3 = Inr params4" by simp
    from url_flag[OF this f3] obtain v where
      "urlParams env br = Inr v"
      "p_fragmentChange params4 = Some (resume_differs env br \<or> has_keys v)" by blast
    with True show ?thesis by (simp add: url_sets_params_def)
  next
    case False
    with u f3 show ?thesis by (simp add: url_sets_params_def)
  qed
  show ?thesis using r f4 by (simp add: truthy_flag_def)
qed

text \<open>
  Claim C9. Whenever \<^verbatim>\<open>initParams\<close> returns, the \<^verbatim>\<open>fragmentChange\<close> flag of the params it
  returns is a boolean and the viewer's \<^verbatim>\<open>suppressFragmentChange\<close> is its negation; and
  \<^verbatim>\<open>suppressFragmentChange\<close> is true exactly when neither the resume value differs from the
  default index nor the URL sets parameters. In the closed example after it the call
  returns in three startups: with parameters in the URL fragment (flag set, nothing
  suppressed), with no source at all (flag clear, suppressed) and with a resume value that
  differs from the default index (flag set).
\<close>

theorem initParams_suppressFragmentChange:
  assumes "initParams env br = Inr (params, br')"
  shows "(\<exists>b. p_fragmentChange params = Some b \<and> suppressFragmentChange br' = (\<not> b))
       \<and> (suppressFragmentChange br' \<longleftrightarrow> \<not> resume_differs env br \<and> \<not> url_sets_params env br)"
  using assms by (rule initParams_returns)

lemmas initParams_eval =
  initParams_def initParams_base_def initParams_defaults_def initParams_resume_def
  initParams_url_def urlParams_def initParams_searchPlugin_def initParams_search_def
  paramsFromFragment_def paramsFromHash_def strip_hash_def urlHash_of_def all_digits_def
  is_digit_def decimal_value_def digit_value_def example_parsePageString_def extendParams_def extend_def orElse_def has_keys_def truthy_flag_def
  truthy_string_def empty_params_def example_env_def example_br_def example_book_def
  constMode1up_def constMode2up_def constModeThumb_def

theorem initParams_suppressFragmentChange_witness:
  "initParams (example_env ''page/n7/mode/2up'') ((example_br 20)\<lparr>enableUrlPlugin := True\<rparr>)
     = Inr (\<lparr>p_index = Some 7, p_page = None, p_mode = Some 2, p_search = None,
              p_theme = None, p_init = Some True, p_pageFound = Some True,
              p_fragmentChange = Some True\<rparr>,
            (example_br 20)\<lparr>enableUrlPlugin := True, suppressFragmentChange := False\<rparr>)
   \<and> (\<exists>b. Some True = Some b
          \<and> suppressFragmentChange
               ((example_br 20)\<lparr>enableUrlPlugin := True, suppressFragmentChange := False\<rparr>)
             = (\<not> b))
   \<and> initParams (example_env []) (example_br 20)
     = Inr (\<lparr>p_index = Some 0, p_page = None, p_mode = None, p_search = None,
              p_theme = None, p_init = Some True, p_pageFound = Some False,
              p_fragmentChange = Some False\<rparr>,
            (example_br 20)\<lparr>suppressFragmentChange := True\<rparr>)
   \<and> initParams (example_env [])
        ((example_br 20)\<lparr>plugins_resume := Some \<lparr>resume_enabled = True, getResumeValue = Some 4\<rparr>\<rparr>)
     = Inr (\<lparr>p_index = Some 4, p_page = None, p_mode = None, p_search = None,
              p_theme = None, p_init = Some True, p_pageFound = Some False,
              p_fragmentChange = Some True\<rparr>,
            (example_br 20)\<lparr>plugins_resume := Some \<lparr>resume_enabled = True, getResumeValue = Some 4\<rparr>,
                             suppressFragmentChange := False\<rparr>)
   \<and> url_sets_params (example_env ''page/n7/mode/2up'') ((example_br 20)\<lparr>enableUrlPlugin := True\<rparr>)
   \<and> resume_differs (example_env [])
        ((example_br 20)\<lparr>plugins_resume := Some \<lparr>resume_enabled = True, getResumeValue = Some 4\<rparr>\<rparr>)"
proof -
  have 1: "initParams (example_env ''page/n7/mode/2up'') ((example_br 20)\<lparr>enableUrlPlugin := True\<rparr>)
     = Inr (\<lparr>p_index = Some 7, p_page = None, p_mode = Some 2, p_search = None,
              p_theme = None, p_init = Some True, p_pageFound = Some True,
              p_fragmentChange = Some True\<rparr>,
            (example_br 20)\<lparr>enableUrlPlugin := True, suppressFragmentChange := False\<rparr>)"
    by (simp add: initParams_eval Let_def)
  have 2: "initParams (example_env []) (example_br 20)
     = Inr (\<lparr>p_index = Some 0, p_page = None, p_mode = None, p_search = None,
              p_theme = None, p_init = Some True, p_pageFound = Some False,
              p_fragmentChange = Some False\<rparr>,
            (example_br 20)\<lparr>suppressFragmentChange := True\<rparr>)"
    by (simp add: initParams_eval Let_def)
  have 3: "initParams (example_env [])
        ((example_br 20)\<lparr>plugins_resume := Some \<lparr>resume_enabled = True, getResumeValue = Some 4\<rparr>\<rparr>)
     = Inr (\<lparr>p_index = Some 4, p_page = None, p_mode = None, p_search = None,
              p_theme = None, p_init = Some True, p_pageFound = Some False,
              p_fragmentChange = Some True\<rparr>,
            (example_br 20)\<lparr>plugins_resume := Some \<lparr>resume_enabled = True, getResumeValue = Some 4\<rparr>,
                             suppressFragmentChange := False\<rparr>)"
    by (simp add: initParams_eval Let_def)
  from initParams_suppressFragmentChange[OF 1, THEN conjunct1] have
    "\<exists>b. Some True = Some b
          \<and> suppressFragmentChange
               ((example_br 20)\<lparr>enableUrlPlugin := True, suppressFragmentChange := False\<rparr>)
             = (\<not> b)"
    by simp
  moreover have "url_sets_params (example_env ''page/n7/mode/2up'')
      ((example_br 20)\<lparr>enableUrlPlugin := True\<rparr>)"
    using initParams_suppressFragmentChange[OF 1, THEN conjunct2]
    by (simp add: resume_differs_def example_br_def)
  moreover have "resume_differs (example_env [])
        ((example_br 20)\<lparr>plugins_resume := Some \<lparr>resume_enabled = True, getResumeValue = Some 4\<rparr>\<rparr>)"
    using initParams_suppressFragmentChange[OF 3, THEN conjunct2]
    by (simp add: url_sets_params_def example_br_def)
  ultimately show ?thesis using 1 2 3 by (intro conjI)
qed

section \<open>Properties of the fragment codec\<close>

lemma digit_nth: "k < 10 \<Longrightarrow> is_digit (''0123456789'' ! k)"
  unfolding is_digit_def by (rule nth_mem) simp

lemma string_of_nat_digits: "list_all is_digit (string_of_nat n)"
proof (induction n rule: string_of_nat.induct)
  case (1 n)
  show ?case
  proof (cases "n < 10")
    case True
    then show ?thesis by (subst string_of_nat.simps) (simp add: digit_nth)
  next
    case False
    have "n mod 10 < 10" by simp
    then have "is_digit (''0123456789'' ! (n mod 10))" by (rule digit_nth)
    with False "1.IH" show ?thesis by (subst string_of_nat.simps) simp
  qed
qed

lemma split_slash_single: "CHR ''/'' \<notin> set a \<Longrightarrow> split_slash a = [a]"
  by (induction a) auto

lemma split_slash_token:
  "CHR ''/'' \<notin> set a \<Longrightarrow> split_slash (a @ CHR ''/'' # rest) = a # split_slash rest"
  by (induction a) auto

lemma strip_hash_page: "strip_hash (''page/'' @ v) = ''page/'' @ v"
  by (simp add: strip_hash_def)

lemma strip_hash_mode: "strip_hash (''mode/'' @ v) = ''mode/'' @ v"
  by (simp add: strip_hash_def)

lemma not_digits_page: "\<not> all_digits (''page/'' @ v)"
  by (simp add: all_digits_def is_digit_def)

lemma not_digits_mode: "\<not> all_digits (''mode/'' @ v)"
  by (simp add: all_digits_def is_digit_def)

lemma encode_index_mode:
  "fragmentFromParams env (empty_params\<lparr>p_index := Some i, p_mode := md\<rparr>) um =
     (case md of
        None \<Rightarrow> Inr (''page/'' @ CHR ''n'' # numberToString env i)
      | Some m \<Rightarrow>
          if m = constMode1up then Inr (''page/'' @ (CHR ''n'' # numberToString env i) @ ''/mode/1up'')
          else if m = constMode2up then Inr (''page/'' @ (CHR ''n'' # numberToString env i) @ ''/mode/2up'')
          else if m = constModeThumb then Inr (''page/'' @ (CHR ''n'' # numberToString env i) @ ''/mode/thumb'')
          else Inl UnknownMode)"
  by (simp add: fragmentFromParams_def empty_params_def split: option.split)

lemma encode_mode_only:
  "fragmentFromParams env (empty_params\<lparr>p_index := None, p_mode := md\<rparr>) um =
     (case md of
        None \<Rightarrow> Inr []
      | Some m \<Rightarrow>
          if m = constMode1up then Inr ''mode/1up''
          else if m = constMode2up then Inr ''mode/2up''
          else if m = constModeThumb then Inr ''mode/thumb''
          else Inl UnknownMode)"
  by (simp add: fragmentFromParams_def empty_params_def split: option.split)

lemma decode_empty: "paramsFromFragment env [] = Inr empty_params"
  by (simp add: paramsFromFragment_def paramsFromHash_def all_digits_def strip_hash_def urlHash_of_def)

lemma split_mode:
  "CHR ''/'' \<notin> set ms \<Longrightarrow> split_slash (''mode/'' @ ms) = [''mode'', ms]"
  using split_slash_token[of "''mode''" ms] split_slash_single[of ms] by simp

lemma paramsFromFragment_mode_only:
  assumes "CHR ''/'' \<notin> set ms"
  shows "paramsFromFragment env (''mode/'' @ ms)
           = paramsFromHash env ((\<lambda>k. None)(''mode'' := Some ms))"
proof -
  have "urlHash_of (''mode/'' @ ms) = (\<lambda>k. None)(''mode'' := Some ms)"
    unfolding urlHash_of_def split_mode[OF assms] by simp
  then show ?thesis
    unfolding paramsFromFragment_def Let_def strip_hash_mode
    using not_digits_mode[of ms] by (simp only: if_False)
qed

lemma paramsFromFragment_page_only:
  assumes "CHR ''/'' \<notin> set v"
  shows "paramsFromFragment env (''page/'' @ v)
           = paramsFromHash env ((\<lambda>k. None)(''page'' := Some v))"
proof -
  have "split_slash (''page/'' @ v) = [''page'', v]"
    using split_slash_token[of "''page''" v] split_slash_single[OF assms] by simp
  then have "urlHash_of (''page/'' @ v) = (\<lambda>k. None)(''page'' := Some v)"
    unfolding urlHash_of_def by simp
  then show ?thesis
    unfolding paramsFromFragment_def Let_def strip_hash_page
    using not_digits_page[of v] by (simp only: if_False)
qed

lemma paramsFromFragment_page_mode:
  assumes "CHR ''/'' \<notin> set v" and "CHR ''/'' \<notin> set ms"
  shows "paramsFromFragment env (''page/'' @ (v @ CHR ''/'' # ''mode/'' @ ms))
           = paramsFromHash env ((\<lambda>k. None)(''page'' := Some v, ''mode'' := Some ms))"
proof -
  have "split_slash (''page/'' @ (v @ CHR ''/'' # ''mode/'' @ ms))
          = ''page'' # split_slash (v @ CHR ''/'' # ''mode/'' @ ms)"
    using split_slash_token[of "''page''" "v @ CHR ''/'' # ''mode/'' @ ms"] by simp
  also have "split_slash (v @ CHR ''/'' # ''mode/'' @ ms) = v # split_slash (''mode/'' @ ms)"
    by (rule split_slash_token[OF assms(1)])
  also have "split_slash (''mode/'' @ ms) = [''mode'', ms]"
    by (rule split_mode[OF assms(2)])
  finally have "urlHash_of (''page/'' @ (v @ CHR ''/'' # ''mode/'' @ ms))
      = (\<lambda>k. None)(''page'' := Some v, ''mode'' := Some ms)"
    unfolding urlHash_of_def by simp
  then show ?thesis
    unfolding paramsFromFragment_def Let_def strip_hash_page
    using not_digits_page[of "v @ CHR ''/'' # ''mode/'' @ ms"] by (simp only: if_False)
qed

lemma paramsFromHash_page_mode:
  assumes "decodeURIComponent env v = Some d"
  shows "paramsFromHash env ((\<lambda>k. None)(''page'' := Some v, ''mode'' := Some ms)) =
     (if ms = ''1up'' then Inr (empty_params\<lparr>p_mode := Some constMode1up, p_page := Some d\<rparr>)
      else if ms = ''2up'' then Inr (empty_params\<lparr>p_mode := Some constMode2up, p_page := Some d\<rparr>)
      else if ms = ''thumb'' then Inr (empty_params\<lparr>p_mode := Some constModeThumb, p_page := Some d\<rparr>)
      else Inr (empty_params\<lparr>p_page := Some d\<rparr>))"
  using assms by (simp add: paramsFromHash_def)

lemma paramsFromHash_page_only:
  assumes "decodeURIComponent env v = Some d"
  shows "paramsFromHash env ((\<lambda>k. None)(''page'' := Some v)) = Inr (empty_params\<lparr>p_page := Some d\<rparr>)"
  using assms by (simp add: paramsFromHash_def)

lemma paramsFromHash_mode_only:
  "paramsFromHash env ((\<lambda>k. None)(''mode'' := Some ms)) =
     (if ms = ''1up'' then Inr (empty_params\<lparr>p_mode := Some constMode1up\<rparr>)
      else if ms = ''2up'' then Inr (empty_params\<lparr>p_mode := Some constMode2up\<rparr>)
      else if ms = ''thumb'' then Inr (empty_params\<lparr>p_mode := Some constModeThumb\<rparr>)
      else Inr empty_params)"
  by (simp add: paramsFromHash_def)

lemma normalize_page:
  assumes "parsePageString bk v = Some i"
  shows "extendParams bk empty_params (empty_params\<lparr>p_mode := md, p_page := Some v\<rparr>)
           = empty_params\<lparr>p_index := Some i, p_mode := md\<rparr>"
  using assms by (simp add: extendParams_def extend_def orElse_def empty_params_def split: option.split)

lemma normalize_page_only:
  assumes "parsePageString bk v = Some i"
  shows "extendParams bk empty_params (empty_params\<lparr>p_page := Some v\<rparr>)
           = empty_params\<lparr>p_index := Some i, p_mode := None\<rparr>"
  using assms by (simp add: extendParams_def extend_def orElse_def empty_params_def split: option.split)

lemma normalize_no_page:
  "extendParams bk empty_params (empty_params\<lparr>p_mode := md\<rparr>)
           = empty_params\<lparr>p_index := None, p_mode := md\<rparr>"
  by (simp add: extendParams_def extend_def orElse_def empty_params_def split: option.split)

lemma normalize_empty:
  "extendParams bk empty_params empty_params = empty_params\<lparr>p_index := None, p_mode := None\<rparr>"
  by (simp add: extendParams_def extend_def orElse_def empty_params_def)

lemma round_trip_index:
  assumes md: "md = None \<or> md = Some constMode1up \<or> md = Some constMode2up \<or> md = Some constModeThumb"
    and ns0: "CHR ''/'' \<notin> set (numberToString env i)"
    and dec: "decodeURIComponent env (CHR ''n'' # numberToString env i) = Some (CHR ''n'' # numberToString env i)"
    and pp: "parsePageString bk (CHR ''n'' # numberToString env i) = Some i"
  shows "\<exists>f q. fragmentFromParams env (empty_params\<lparr>p_index := Some i, p_mode := md\<rparr>) um = Inr f
           \<and> paramsFromFragment env f = Inr q
           \<and> extendParams bk empty_params q = empty_params\<lparr>p_index := Some i, p_mode := md\<rparr>"
proof -
  let ?v = "CHR ''n'' # numberToString env i"
  have ns: "CHR ''/'' \<notin> set ?v" using ns0 by simp
  have m1: "CHR ''/'' \<notin> set ''1up''" and m2: "CHR ''/'' \<notin> set ''2up''"
    and m3: "CHR ''/'' \<notin> set ''thumb''" by simp_all
  from md consider "md = None" | "md = Some constMode1up" | "md = Some constMode2up"
    | "md = Some constModeThumb" by blast
  then show ?thesis
  proof cases
    case 1
    have "fragmentFromParams env (empty_params\<lparr>p_index := Some i, p_mode := md\<rparr>) um
            = Inr (''page/'' @ ?v)"
      unfolding 1 encode_index_mode by simp
    moreover have "paramsFromFragment env (''page/'' @ ?v) = Inr (empty_params\<lparr>p_page := Some ?v\<rparr>)"
      unfolding paramsFromFragment_page_only[OF ns] paramsFromHash_page_only[OF dec] ..
    moreover have "extendParams bk empty_params (empty_params\<lparr>p_page := Some ?v\<rparr>)
                     = empty_params\<lparr>p_index := Some i, p_mode := md\<rparr>"
      unfolding 1 by (rule normalize_page_only[OF pp])
    ultimately show ?thesis by blast
  next
    case 2
    have "fragmentFromParams env (empty_params\<lparr>p_index := Some i, p_mode := md\<rparr>) um
            = Inr (''page/'' @ (?v @ CHR ''/'' # ''mode/'' @ ''1up''))"
      unfolding 2 encode_index_mode by simp
    moreover have "paramsFromFragment env (''page/'' @ (?v @ CHR ''/'' # ''mode/'' @ ''1up''))
        = Inr (empty_params\<lparr>p_mode := Some constMode1up, p_page := Some ?v\<rparr>)"
      unfolding paramsFromFragment_page_mode[OF ns m1] paramsFromHash_page_mode[OF dec] by simp
    moreover have "extendParams bk empty_params (empty_params\<lparr>p_mode := Some constMode1up, p_page := Some ?v\<rparr>)
                     = empty_params\<lparr>p_index := Some i, p_mode := md\<rparr>"
      unfolding 2 by (rule normalize_page[OF pp])
    ultimately show ?thesis by blast
  next
    case 3
    have "fragmentFromParams env (empty_params\<lparr>p_index := Some i, p_mode := md\<rparr>) um
            = Inr (''page/'' @ (?v @ CHR ''/'' # ''mode/'' @ ''2up''))"
      unfolding 3 encode_index_mode by (simp add: constMode1up_def constMode2up_def)
    moreover have "paramsFromFragment env (''page/'' @ (?v @ CHR ''/'' # ''mode/'' @ ''2up''))
        = Inr (empty_params\<lparr>p_mode := Some constMode2up, p_page := Some ?v\<rparr>)"
      unfolding paramsFromFragment_page_mode[OF ns m2] paramsFromHash_page_mode[OF dec] by simp
    moreover have "extendParams bk empty_params (empty_params\<lparr>p_mode := Some constMode2up, p_page := Some ?v\<rparr>)
                     = empty_params\<lparr>p_index := Some i, p_mode := md\<rparr>"
      unfolding 3 by (rule normalize_page[OF pp])
    ultimately show ?thesis by blast
  next
    case 4
    have "fragmentFromParams env (empty_params\<lparr>p_index := Some i, p_mode := md\<rparr>) um
            = Inr (''page/'' @ (?v @ CHR ''/'' # ''mode/'' @ ''thumb''))"
      unfolding 4 encode_index_mode
      by (simp add: constMode1up_def constMode2up_def constModeThumb_def)
    moreover have "paramsFromFragment env (''page/'' @ (?v @ CHR ''/'' # ''mode/'' @ ''thumb''))
        = Inr (empty_params\<lparr>p_mode := Some constModeThumb, p_page := Some ?v\<rparr>)"
      unfolding paramsFromFragment_page_mode[OF ns m3] paramsFromHash_page_mode[OF dec] by simp
    moreover have "extendParams bk empty_params (empty_params\<lparr>p_mode := Some constModeThumb, p_page := Some ?v\<rparr>)
                     = empty_params\<lparr>p_index := Some i, p_mode := md\<rparr>"
      unfolding 4 by (rule normalize_page[OF pp])
    ultimately show ?thesis by blast
  qed
qed

lemma round_trip_no_index:
  assumes md: "md = None \<or> md = Some constMode1up \<or> md = Some constMode2up \<or> md = Some constModeThumb"
  shows "\<exists>f q. fragmentFromParams env (empty_params\<lparr>p_index := None, p_mode := md\<rparr>) um = Inr f
           \<and> paramsFromFragment env f = Inr q
           \<and> extendParams bk empty_params q = empty_params\<lparr>p_index := None, p_mode := md\<rparr>"
proof -
  have m1: "CHR ''/'' \<notin> set ''1up''" and m2: "CHR ''/'' \<notin> set ''2up''"
    and m3: "CHR ''/'' \<notin> set ''thumb''" by simp_all
  from md consider "md = None" | "md = Some constMode1up" | "md = Some constMode2up"
    | "md = Some constModeThumb" by blast
  then show ?thesis
  proof cases
    case 1
    have "fragmentFromParams env (empty_params\<lparr>p_index := None, p_mode := md\<rparr>) um = Inr []"
      unfolding 1 encode_mode_only by simp
    then show ?thesis using decode_empty[of env] normalize_empty[of bk] unfolding 1 by blast
  next
    case 2
    have "fragmentFromParams env (empty_params\<lparr>p_index := None, p_mode := md\<rparr>) um
            = Inr (''mode/'' @ ''1up'')"
      unfolding 2 encode_mode_only by simp
    moreover have "paramsFromFragment env (''mode/'' @ ''1up'')
        = Inr (empty_params\<lparr>p_mode := Some constMode1up\<rparr>)"
      unfolding paramsFromFragment_mode_only[OF m1] paramsFromHash_mode_only by simp
    ultimately show ?thesis using normalize_no_page[of bk md] unfolding 2 by blast
  next
    case 3
    have "fragmentFromParams env (empty_params\<lparr>p_index := None, p_mode := md\<rparr>) um
            = Inr (''mode/'' @ ''2up'')"
      unfolding 3 encode_mode_only by (simp add: constMode1up_def constMode2up_def)
    moreover have "paramsFromFragment env (''mode/'' @ ''2up'')
        = Inr (empty_params\<lparr>p_mode := Some constMode2up\<rparr>)"
      unfolding paramsFromFragment_mode_only[OF m2] paramsFromHash_mode_only by simp
    ultimately show ?thesis using normalize_no_page[of bk md] unfolding 3 by blast
  next
    case 4
    have "fragmentFromParams env (empty_params\<lparr>p_index := None, p_mode := md\<rparr>) um
            = Inr (''mode/'' @ ''thumb'')"
      unfolding 4 encode_mode_only
      by (simp add: constMode1up_def constMode2up_def constModeThumb_def)
    moreover have "paramsFromFragment env (''mode/'' @ ''thumb'')
        = Inr (empty_params\<lparr>p_mode := Some constModeThumb\<rparr>)"
      unfolding paramsFromFragment_mode_only[OF m3] paramsFromHash_mode_only by simp
    ultimately show ?thesis using normalize_no_page[of bk md] unfolding 4 by blast
  qed
qed


lemma digit_value_nth: "k < 10 \<Longrightarrow> digit_value (''0123456789'' ! k) = k"
proof -
  assume "k < 10"
  then have "k = 0 \<or> k = 1 \<or> k = 2 \<or> k = 3 \<or> k = 4 \<or> k = 5 \<or> k = 6 \<or> k = 7 \<or> k = 8 \<or> k = 9"
    by arith
  then show ?thesis by (auto simp: digit_value_def)
qed

lemma decimal_value_snoc: "decimal_value (s @ [c]) = 10 * decimal_value s + digit_value c"
  by (simp add: decimal_value_def)

lemma decimal_value_string_of_nat: "decimal_value (string_of_nat n) = n"
proof (induction n rule: string_of_nat.induct)
  case (1 n)
  show ?case
  proof (cases "n < 10")
    case True
    then show ?thesis
      by (subst string_of_nat.simps) (simp add: decimal_value_def digit_value_nth)
  next
    case False
    have m: "n mod 10 < 10" by simp
    have "decimal_value (string_of_nat n)
            = decimal_value (string_of_nat (n div 10) @ [''0123456789'' ! (n mod 10)])"
      using False by (subst string_of_nat.simps) simp
    also have "\<dots> = 10 * (n div 10) + n mod 10"
      unfolding decimal_value_snoc using "1.IH"[OF False] digit_value_nth[OF m] by simp
    finally show ?thesis by simp
  qed
qed

lemma string_of_nat_nonempty: "string_of_nat n \<noteq> []"
  by (subst string_of_nat.simps) simp

lemma string_of_nat_all_digits: "all_digits (string_of_nat n)"
  by (simp add: all_digits_def string_of_nat_nonempty string_of_nat_digits)

lemma digits_no_special:
  assumes "list_all is_digit s"
  shows "CHR ''/'' \<notin> set s" and "CHR ''%'' \<notin> set s"
proof -
  have a: "\<not> is_digit CHR ''/''" "\<not> is_digit CHR ''%''" by (simp_all add: is_digit_def)
  from assms have "\<forall>c\<in>set s. is_digit c" by (simp add: list_all_iff)
  with a show "CHR ''/'' \<notin> set s" and "CHR ''%'' \<notin> set s" by blast+
qed

lemma numberToString_index:
  assumes "0 \<le> i" and "i < 2 ^ 53"
  shows "numberToString env i = string_of_nat (nat i)"
proof -
  have "(0::int) < 2 ^ 53" by simp
  with assms have c: "- (2 ^ 53) < i \<and> i < 2 ^ 53" by linarith
  then have "numberToString env i = string_of_int i"
    by (simp only: numberToString_def simp_thms if_True)
  also have "\<dots> = string_of_nat (nat i)"
    using assms(1) by (simp add: string_of_int_def)
  finally show ?thesis .
qed

lemma string_of_int_5: "string_of_int 5 = ''5''"
  by (simp add: string_of_int_def string_of_nat.simps)

lemma numberToString_5: "numberToString env 5 = ''5''"
proof -
  have "- (2 ^ 53) < (5::int) \<and> (5::int) < 2 ^ 53" by simp
  then have "numberToString env 5 = string_of_int 5"
    by (simp only: numberToString_def simp_thms if_True)
  then show ?thesis by (simp only: string_of_int_5)
qed

text \<open>
  Claim C4. Take a params object with only \<^verbatim>\<open>index\<close> and \<^verbatim>\<open>mode\<close> (each optional), the
  index a page index that a double holds exactly, from 0 to below \<open>2^53\<close>, the mode one of
  the three constants. Let \<^verbatim>\<open>decodeURIComponent\<close> return a string without \<^verbatim>\<open>%\<close> unchanged,
  and let the book's \<^verbatim>\<open>parsePageString\<close> read \<^verbatim>\<open>n\<close> followed by digits as the index the
  digits stand for. Then \<^verbatim>\<open>fragmentFromParams\<close> returns a fragment, \<^verbatim>\<open>paramsFromFragment\<close>
  returns on it, and \<^verbatim>\<open>extendParams\<close> of the decoded object into an empty one gives the
  original object back. For index 5 in two-page mode the fragment is
  \<^verbatim>\<open>page/n5/mode/2up\<close>, which decodes to page \<^verbatim>\<open>n5\<close> with the two-page mode, and normalizes
  to index 5.
\<close>

theorem fragment_round_trip:
  assumes md: "md = None \<or> md = Some constMode1up \<or> md = Some constMode2up
               \<or> md = Some constModeThumb"
    and bound: "\<forall>i. idx = Some i \<longrightarrow> 0 \<le> i \<and> i < 2 ^ 53"
    and decoder: "\<forall>s. CHR ''%'' \<notin> set s \<longrightarrow> decodeURIComponent env s = Some s"
    and parser: "\<forall>ds. all_digits ds \<and> decimal_value ds < 2 ^ 53
                   \<longrightarrow> parsePageString bk (CHR ''n'' # ds) = Some (int (decimal_value ds))"
  shows "(\<exists>f q. fragmentFromParams env (empty_params\<lparr>p_index := idx, p_mode := md\<rparr>) um = Inr f
            \<and> paramsFromFragment env f = Inr q
            \<and> extendParams bk empty_params q = empty_params\<lparr>p_index := idx, p_mode := md\<rparr>)
       \<and> fragmentFromParams env (empty_params\<lparr>p_index := Some 5, p_mode := Some constMode2up\<rparr>) um
           = Inr ''page/n5/mode/2up''
       \<and> paramsFromFragment env ''page/n5/mode/2up''
           = Inr (empty_params\<lparr>p_page := Some ''n5'', p_mode := Some constMode2up\<rparr>)
       \<and> extendParams bk empty_params (empty_params\<lparr>p_page := Some ''n5'', p_mode := Some constMode2up\<rparr>)
           = empty_params\<lparr>p_index := Some 5, p_mode := Some constMode2up\<rparr>"
proof (intro conjI)
  show "\<exists>f q. fragmentFromParams env (empty_params\<lparr>p_index := idx, p_mode := md\<rparr>) um = Inr f
            \<and> paramsFromFragment env f = Inr q
            \<and> extendParams bk empty_params q = empty_params\<lparr>p_index := idx, p_mode := md\<rparr>"
  proof (cases idx)
    case None
    show ?thesis unfolding None by (rule round_trip_no_index[OF md])
  next
    case (Some i)
    with bound have b: "0 \<le> i" "i < 2 ^ 53" by simp_all
    let ?ds = "string_of_nat (nat i)"
    have pr: "numberToString env i = ?ds" by (rule numberToString_index[OF b])
    have dg: "list_all is_digit ?ds" by (rule string_of_nat_digits)
    have v: "decimal_value ?ds = nat i" by (rule decimal_value_string_of_nat)
    have small: "decimal_value ?ds < 2 ^ 53" unfolding v using b by (simp add: nat_less_iff)
    have ns: "CHR ''/'' \<notin> set (numberToString env i)"
      unfolding pr by (rule digits_no_special(1)[OF dg])
    have "CHR ''%'' \<notin> set (CHR ''n'' # numberToString env i)"
      unfolding pr using digits_no_special(2)[OF dg] by simp
    with decoder have d: "decodeURIComponent env (CHR ''n'' # numberToString env i)
                           = Some (CHR ''n'' # numberToString env i)" by blast
    from parser string_of_nat_all_digits[of "nat i"] small
    have "parsePageString bk (CHR ''n'' # ?ds) = Some (int (decimal_value ?ds))" by blast
    then have p: "parsePageString bk (CHR ''n'' # numberToString env i) = Some i"
      unfolding pr v using b by simp
    show ?thesis unfolding Some by (rule round_trip_index[OF md ns d p])
  qed
next
  show "fragmentFromParams env (empty_params\<lparr>p_index := Some 5, p_mode := Some constMode2up\<rparr>) um
           = Inr ''page/n5/mode/2up''"
    unfolding encode_index_mode
    by (simp add: numberToString_5 constMode1up_def constMode2up_def)
next
  have "CHR ''%'' \<notin> set ''n5''" by simp
  with decoder have d: "decodeURIComponent env ''n5'' = Some ''n5''" by blast
  have ns: "CHR ''/'' \<notin> set ''n5''" and m2: "CHR ''/'' \<notin> set ''2up''" by simp_all
  have "paramsFromFragment env (''page/'' @ (''n5'' @ CHR ''/'' # ''mode/'' @ ''2up''))
          = Inr (empty_params\<lparr>p_mode := Some constMode2up, p_page := Some ''n5''\<rparr>)"
    unfolding paramsFromFragment_page_mode[OF ns m2] paramsFromHash_page_mode[OF d] by simp
  then show "paramsFromFragment env ''page/n5/mode/2up''
              = Inr (empty_params\<lparr>p_page := Some ''n5'', p_mode := Some constMode2up\<rparr>)"
    by (simp add: empty_params_def)
next
  have "all_digits ''5'' \<and> decimal_value ''5'' < 2 ^ 53"
    by (simp add: all_digits_def is_digit_def decimal_value_def digit_value_def)
  with parser have "parsePageString bk (CHR ''n'' # ''5'') = Some (int (decimal_value ''5''))"
    by blast
  then have "parsePageString bk ''n5'' = Some 5"
    by (simp add: decimal_value_def digit_value_def)
  from normalize_page[OF this, of "Some constMode2up"]
  show "extendParams bk empty_params (empty_params\<lparr>p_page := Some ''n5'', p_mode := Some constMode2up\<rparr>)
              = empty_params\<lparr>p_index := Some 5, p_mode := Some constMode2up\<rparr>"
    by (simp add: empty_params_def)
qed

theorem fragment_round_trip_witness:
  "fragmentFromParams (example_env []) (empty_params\<lparr>p_index := Some 5, p_mode := Some 2\<rparr>) None
     = Inr ''page/n5/mode/2up''
   \<and> paramsFromFragment (example_env []) ''page/n5/mode/2up''
     = Inr (empty_params\<lparr>p_page := Some ''n5'', p_mode := Some 2\<rparr>)
   \<and> extendParams (example_book 20) empty_params (empty_params\<lparr>p_page := Some ''n5'', p_mode := Some 2\<rparr>)
     = empty_params\<lparr>p_index := Some 5, p_mode := Some 2\<rparr>"
proof -
  have md: "Some (2::int) = None \<or> Some 2 = Some constMode1up \<or> Some 2 = Some constMode2up
               \<or> Some 2 = Some constModeThumb"
    by (simp add: constMode2up_def)
  have bound: "\<forall>i. Some (5::int) = Some i \<longrightarrow> 0 \<le> i \<and> i < 2 ^ 53" by simp
  have decoder: "\<forall>s. CHR ''%'' \<notin> set s \<longrightarrow> decodeURIComponent (example_env []) s = Some s"
    by (simp add: example_env_def)
  have parser: "\<forall>ds. all_digits ds \<and> decimal_value ds < 2 ^ 53
      \<longrightarrow> parsePageString (example_book 20) (CHR ''n'' # ds) = Some (int (decimal_value ds))"
    by (simp add: example_book_def example_parsePageString_def)
  note t = fragment_round_trip[OF md bound decoder parser, of None]
  from t[THEN conjunct2] show ?thesis by (simp add: constMode2up_def)
qed

section \<open>Decoding an unrecognized mode\<close>

lemma paramsFromHash_mode:
  assumes "paramsFromHash env h = Inr p"
  shows "p_mode p =
        (if h ''mode'' = Some ''1up'' then Some constMode1up
         else if h ''mode'' = Some ''2up'' then Some constMode2up
         else if h ''mode'' = Some ''thumb'' then Some constModeThumb
         else None)"
proof -
  define params1 where "params1 =
        (if h ''mode'' = Some ''1up'' then empty_params\<lparr>p_mode := Some constMode1up\<rparr>
         else if h ''mode'' = Some ''2up'' then empty_params\<lparr>p_mode := Some constMode2up\<rparr>
         else if h ''mode'' = Some ''thumb'' then empty_params\<lparr>p_mode := Some constModeThumb\<rparr>
         else empty_params)"
  have m1: "p_mode params1 =
        (if h ''mode'' = Some ''1up'' then Some constMode1up
         else if h ''mode'' = Some ''2up'' then Some constMode2up
         else if h ''mode'' = Some ''thumb'' then Some constModeThumb
         else None)"
    by (simp add: params1_def empty_params_def)
  from assms have "p_mode p = p_mode params1"
    unfolding paramsFromHash_def Let_def params1_def[symmetric]
    by (cases "h ''page''"; cases "h ''search''"; cases "h ''theme''")
       (auto split: option.splits)
  then show ?thesis using m1 by simp
qed

lemma paramsFromHash_error:
  assumes "paramsFromHash env h = Inl e"
  shows "e = URIError
       \<and> ((\<exists>v. h ''page'' = Some v \<and> decodeURIComponent env v = None)
          \<or> (\<exists>v. h ''search'' = Some v \<and> decodeURIComponentPlus env v = None))"
  using assms unfolding paramsFromHash_def Let_def
  by (cases "h ''page''"; cases "h ''search''"; cases "h ''theme''")
     (auto split: option.splits)

lemma paramsFromHash_returns:
  assumes "\<forall>v. h ''page'' = Some v \<longrightarrow> decodeURIComponent env v \<noteq> None"
    and "\<forall>v. h ''search'' = Some v \<longrightarrow> decodeURIComponentPlus env v \<noteq> None"
  shows "\<exists>p. paramsFromHash env h = Inr p"
proof (cases "paramsFromHash env h")
  case (Inl e)
  from paramsFromHash_error[OF Inl] assms show ?thesis by blast
next
  case (Inr p)
  then show ?thesis by blast
qed

lemma fragmentFromParams_unknown_mode:
  assumes "m \<noteq> constMode1up" "m \<noteq> constMode2up" "m \<noteq> constModeThumb"
  shows "(\<exists>e. fragmentFromParams env (params\<lparr>p_mode := Some m\<rparr>) um = Inl e)
       \<and> (p_page params = None \<longrightarrow>
            fragmentFromParams env (params\<lparr>p_mode := Some m\<rparr>) um = Inl UnknownMode)"
  using assms unfolding fragmentFromParams_def Let_def
  by (cases "p_page params"; cases "p_index params")
     (auto split: option.splits)

text \<open>
  Claim C10, as amended. Take a fragment whose \<^verbatim>\<open>mode\<close> value is none of \<^verbatim>\<open>1up\<close>,
  \<^verbatim>\<open>2up\<close>, \<^verbatim>\<open>thumb\<close>. When \<^verbatim>\<open>paramsFromFragment\<close> returns, the params object has no
  \<^verbatim>\<open>mode\<close> key; the only error it can raise is the URIError of a \<^verbatim>\<open>page\<close> or \<^verbatim>\<open>search\<close>
  value that does not decode, so it returns whenever those values, if present, decode.
  \<^verbatim>\<open>mode/3up\<close> decodes to the empty params object. \<^verbatim>\<open>fragmentFromParams\<close>, on the other
  hand, throws on a params object whose mode is none of the three constants (its own
  "unknown mode" error when no \<^verbatim>\<open>page\<close> is set).
\<close>

theorem paramsFromFragment_unknown_mode:
  assumes "urlHash_of (strip_hash f) ''mode'' \<noteq> Some ''1up''"
    and "urlHash_of (strip_hash f) ''mode'' \<noteq> Some ''2up''"
    and "urlHash_of (strip_hash f) ''mode'' \<noteq> Some ''thumb''"
  shows "(\<forall>p. paramsFromFragment env f = Inr p \<longrightarrow> p_mode p = None)
       \<and> (\<forall>e. paramsFromFragment env f = Inl e \<longrightarrow>
             e = URIError
             \<and> ((\<exists>v. urlHash_of (strip_hash f) ''page'' = Some v \<and> decodeURIComponent env v = None)
                \<or> (\<exists>v. urlHash_of (strip_hash f) ''search'' = Some v
                       \<and> decodeURIComponentPlus env v = None)))
       \<and> ((\<forall>v. urlHash_of (strip_hash f) ''page'' = Some v \<longrightarrow> decodeURIComponent env v \<noteq> None)
           \<and> (\<forall>v. urlHash_of (strip_hash f) ''search'' = Some v
                  \<longrightarrow> decodeURIComponentPlus env v \<noteq> None)
          \<longrightarrow> (\<exists>p. paramsFromFragment env f = Inr p \<and> p_mode p = None))
       \<and> paramsFromFragment env ''mode/3up'' = Inr empty_params
       \<and> (m \<noteq> constMode1up \<and> m \<noteq> constMode2up \<and> m \<noteq> constModeThumb \<longrightarrow>
            (\<exists>e. fragmentFromParams env (params\<lparr>p_mode := Some m\<rparr>) um = Inl e)
            \<and> (p_page params = None \<longrightarrow>
                 fragmentFromParams env (params\<lparr>p_mode := Some m\<rparr>) um = Inl UnknownMode))"
proof -
  let ?h = "urlHash_of (strip_hash f)"
  have a: "\<forall>p. paramsFromFragment env f = Inr p \<longrightarrow> p_mode p = None"
  proof (intro allI impI)
    fix p assume r: "paramsFromFragment env f = Inr p"
    show "p_mode p = None"
    proof (cases "all_digits (strip_hash f)")
      case True
      with r show ?thesis by (auto simp: paramsFromFragment_def Let_def empty_params_def)
    next
      case False
      with r have "paramsFromHash env ?h = Inr p" by (simp add: paramsFromFragment_def Let_def)
      from paramsFromHash_mode[OF this] assms show ?thesis by simp
    qed
  qed
  have b: "\<forall>e. paramsFromFragment env f = Inl e \<longrightarrow>
             e = URIError
             \<and> ((\<exists>v. ?h ''page'' = Some v \<and> decodeURIComponent env v = None)
                \<or> (\<exists>v. ?h ''search'' = Some v \<and> decodeURIComponentPlus env v = None))"
  proof (intro allI impI)
    fix e assume r: "paramsFromFragment env f = Inl e"
    then have nd: "\<not> all_digits (strip_hash f)"
      by (auto simp: paramsFromFragment_def Let_def split: if_splits)
    with r have "paramsFromHash env ?h = Inl e" by (simp add: paramsFromFragment_def Let_def)
    then show "e = URIError
             \<and> ((\<exists>v. ?h ''page'' = Some v \<and> decodeURIComponent env v = None)
                \<or> (\<exists>v. ?h ''search'' = Some v \<and> decodeURIComponentPlus env v = None))"
      by (rule paramsFromHash_error)
  qed
  have c: "(\<forall>v. ?h ''page'' = Some v \<longrightarrow> decodeURIComponent env v \<noteq> None)
           \<and> (\<forall>v. ?h ''search'' = Some v \<longrightarrow> decodeURIComponentPlus env v \<noteq> None)
          \<longrightarrow> (\<exists>p. paramsFromFragment env f = Inr p \<and> p_mode p = None)"
  proof
    assume ok: "(\<forall>v. ?h ''page'' = Some v \<longrightarrow> decodeURIComponent env v \<noteq> None)
           \<and> (\<forall>v. ?h ''search'' = Some v \<longrightarrow> decodeURIComponentPlus env v \<noteq> None)"
    have "\<exists>p. paramsFromFragment env f = Inr p"
    proof (cases "paramsFromFragment env f")
      case (Inl e)
      with b ok show ?thesis by blast
    next
      case (Inr p)
      then show ?thesis by blast
    qed
    with a show "\<exists>p. paramsFromFragment env f = Inr p \<and> p_mode p = None" by blast
  qed
  have d: "paramsFromFragment env ''mode/3up'' = Inr empty_params"
    by (simp add: paramsFromFragment_def paramsFromHash_def strip_hash_def urlHash_of_def
        all_digits_def is_digit_def Let_def)
  have e: "m \<noteq> constMode1up \<and> m \<noteq> constMode2up \<and> m \<noteq> constModeThumb \<longrightarrow>
            (\<exists>e. fragmentFromParams env (params\<lparr>p_mode := Some m\<rparr>) um = Inl e)
            \<and> (p_page params = None \<longrightarrow>
                 fragmentFromParams env (params\<lparr>p_mode := Some m\<rparr>) um = Inl UnknownMode)"
    using fragmentFromParams_unknown_mode[of m env params um] by blast
  from a b c d e show ?thesis by (intro conjI)
qed

theorem paramsFromFragment_unknown_mode_witness:
  "paramsFromFragment (example_env []) ''mode/3up/page/n7''
     = Inr (empty_params\<lparr>p_page := Some ''n7''\<rparr>)
   \<and> p_mode (empty_params\<lparr>p_page := Some ''n7''\<rparr>) = None
   \<and> fragmentFromParams (example_env []) (empty_params\<lparr>p_mode := Some 7\<rparr>) None = Inl UnknownMode"
proof -
  have h: "urlHash_of (strip_hash ''mode/3up/page/n7'')
             = (\<lambda>k. None)(''mode'' := Some ''3up'', ''page'' := Some ''n7'')"
    by (simp add: urlHash_of_def strip_hash_def)
  have 1: "paramsFromFragment (example_env []) ''mode/3up/page/n7''
     = Inr (empty_params\<lparr>p_page := Some ''n7''\<rparr>)"
    by (simp add: paramsFromFragment_def paramsFromHash_def strip_hash_def urlHash_of_def
        all_digits_def is_digit_def Let_def example_env_def)
  have a1: "urlHash_of (strip_hash ''mode/3up/page/n7'') ''mode'' \<noteq> Some ''1up''"
    and a2: "urlHash_of (strip_hash ''mode/3up/page/n7'') ''mode'' \<noteq> Some ''2up''"
    and a3: "urlHash_of (strip_hash ''mode/3up/page/n7'') ''mode'' \<noteq> Some ''thumb''"
    unfolding h by simp_all
  note t = paramsFromFragment_unknown_mode[OF a1 a2 a3, of "example_env []" 7 empty_params None]
  from t[THEN conjunct1] 1 have 2: "p_mode (empty_params\<lparr>p_page := Some ''n7''\<rparr>) = None"
    by blast
  have m: "(7::int) \<noteq> constMode1up \<and> 7 \<noteq> constMode2up \<and> 7 \<noteq> constModeThumb"
    by (simp add: constMode1up_def constMode2up_def constModeThumb_def)
  have pn: "p_page empty_params = None" by (simp add: empty_params_def)
  from t[THEN conjunct2, THEN conjunct2, THEN conjunct2, THEN conjunct2, THEN mp, OF m,
         THEN conjunct2, THEN mp, OF pn]
  have 3: "fragmentFromParams (example_env []) (empty_params\<lparr>p_mode := Some 7\<rparr>) None
             = Inl UnknownMode" .
  from 1 2 3 show ?thesis by (intro conjI)
qed

text \<open>
  Claim C10 as stated fails on a fragment with an unrecognized mode and a malformed
  escape in its page value: \<^verbatim>\<open>mode/3up/page/%\<close> raises a URIError.
\<close>

theorem paramsFromFragment_malformed_page_counterexample:
  "paramsFromFragment (example_env []) ''mode/3up/page/%'' = Inl URIError"
  by (simp add: paramsFromFragment_def paramsFromHash_def strip_hash_def urlHash_of_def
      all_digits_def is_digit_def Let_def example_env_def)

end
